theory Spec2Isabelle
  imports Main "HOL-Library.Word" "HOL-Library.Multiset"
begin

section \<open>Data model of answer.go\<close>

text \<open>The top-level key in the JSON for the default (not client-specific) answers.\<close>

definition DEFAULT_KEY :: string where
  "DEFAULT_KEY = ''default''"

text \<open>
  \<^verbatim>\<open>RecordA\<close> and \<^verbatim>\<open>RecordCname\<close>: the \<^verbatim>\<open>Ttl *uint32\<close> pointer is an optional
  32-bit word. Both Go structs call their fields \<^verbatim>\<open>Ttl\<close> and \<^verbatim>\<open>Answer\<close>; the
  fields carry a prefix here because record selectors share one name space.
\<close>

record RecordA =
  a_Ttl :: "32 word option"
  a_Answer :: "string list"

record RecordCname =
  c_Ttl :: "32 word option"
  c_Answer :: string

text \<open>\<^verbatim>\<open>ClientAnswers\<close>; a Go map that is nil reads like the empty map.\<close>

record ClientAnswers =
  Recurse :: "string list"
  A :: "string \<rightharpoonup> RecordA"
  Cname :: "string \<rightharpoonup> RecordCname"

type_synonym Answers = "string \<rightharpoonup> ClientAnswers"

text \<open>
  The records of the DNS library that the code builds: \<^verbatim>\<open>dns.RR_Header\<close>, and the
  resource records \<^verbatim>\<open>*dns.A\<close> (whose address is a \<^verbatim>\<open>net.IP\<close>, a byte slice that
  is nil when the text did not parse) and \<^verbatim>\<open>*dns.CNAME\<close>. An upstream answer may
  hold any other kind of record, kept here with its header and opaque data.
\<close>

record RR_Header =
  Name :: string
  Rrtype :: "16 word"
  Class :: "16 word"
  Ttl :: "32 word"

type_synonym IP = "8 word list"

datatype RR =
    RR_A RR_Header "IP option"
  | RR_CNAME RR_Header string
  | RR_Other RR_Header string

definition TypeA :: "16 word" where "TypeA = 1"
definition TypeCNAME :: "16 word" where "TypeCNAME = 5"
definition ClassINET :: "16 word" where "ClassINET = 1"

text \<open>
  \<^verbatim>\<open>dns.Fqdn\<close> of the DNS library: a name that already ends in a dot is returned
  as it is, any other name (the empty one too) gets a dot appended.
\<close>

definition IsFqdn :: "string \<Rightarrow> bool" where
  "IsFqdn s = (s \<noteq> [] \<and> last s = CHR ''.'')"

definition Fqdn :: "string \<Rightarrow> string" where
  "Fqdn s = (if IsFqdn s then s else s @ ''.'')"

section \<open>The world outside the resolver\<close>

text \<open>
  One call of the upstream delegate \<^verbatim>\<open>ResolveTryAll(fqdn, hosts)\<close>, as seen from
  the resolver: the two arguments, and the client key and the number of CNAME
  parents of the invocation of \<^verbatim>\<open>Addresses\<close> that made the call.
\<close>

record upstream_call =
  uc_client :: string
  uc_depth :: nat
  uc_fqdn :: string
  uc_hosts :: "string list"

text \<open>
  The state the code reads and writes besides its arguments: the global generator of
  \<^verbatim>\<open>math/rand\<close>, as the sequence of values it is going to produce, and the calls
  made to the upstream delegate so far, oldest first.
\<close>

record world =
  rand_src :: "nat \<Rightarrow> nat"
  upstream_log :: "upstream_call list"

datatype upstream_error = UpstreamFailure

text \<open>
  What \<^verbatim>\<open>answer.go\<close> uses and does not define: the \<^verbatim>\<open>--ttl\<close> flag
  \<^verbatim>\<open>*defaultTtl\<close>, \<^verbatim>\<open>net.ParseIP\<close>, and the upstream delegate
  \<^verbatim>\<open>ResolveTryAll\<close>, whose reply (an error, or the answer section of the message)
  may depend on the calls made before it.
\<close>

record env =
  defaultTtl :: int
  ParseIP :: "string \<Rightarrow> IP option"
  ResolveTryAll :: "upstream_call list \<Rightarrow> string \<Rightarrow> string list \<Rightarrow> upstream_error + RR list"

text \<open>
  \<^verbatim>\<open>rand.Intn(n)\<close> for \<open>n > 0\<close>: some value below \<open>n\<close>, and the generator moves
  on. (For \<open>n \<le> 0\<close> the Go function panics; \<^verbatim>\<open>shuffle\<close> only calls it with
  \<open>i + 1\<close>.)
\<close>

definition Intn :: "nat \<Rightarrow> world \<Rightarrow> nat \<times> world" where
  "Intn n w = (rand_src w 0 mod n, w\<lparr>rand_src := (\<lambda>k. rand_src w (Suc k))\<rparr>)"

section \<open>shuffle\<close>

text \<open>
  One round of the loop body of \<^verbatim>\<open>shuffle\<close>:
  \<^verbatim>\<open>j := rand.Intn(i + 1); items[i], items[j] = items[j], items[i]\<close>.
\<close>

definition shuffle_step :: "nat \<Rightarrow> 'a list \<times> world \<Rightarrow> 'a list \<times> world" where
  "shuffle_step i s =
     (case s of (items, w) \<Rightarrow>
        (case Intn (i + 1) w of (j, w') \<Rightarrow>
           (items[i := items ! j, j := items ! i], w')))"

text \<open>\<^verbatim>\<open>for i := range *items\<close>: the indices \<open>0\<close> to \<open>len - 1\<close>, in order.\<close>

definition shuffle :: "'a list \<Rightarrow> world \<Rightarrow> 'a list \<times> world" where
  "shuffle items w = fold shuffle_step [0..<length items] (items, w)"

section \<open>RecurseHosts\<close>

definition recurseHostsFor :: "Answers \<Rightarrow> string \<Rightarrow> string list" where
  "recurseHostsFor answers clientIp =
     (case answers clientIp of
        Some client \<Rightarrow> (if length (Recurse client) > 0 then Recurse client else [])
      | None \<Rightarrow> [])"

definition RecurseHosts :: "Answers \<Rightarrow> string \<Rightarrow> string list" where
  "RecurseHosts answers clientIp =
     (let hosts = [];
          more = recurseHostsFor answers clientIp;
          hosts = (if length more > 0 then hosts @ more else hosts);
          more = recurseHostsFor answers DEFAULT_KEY;
          hosts = (if length more > 0 then hosts @ more else hosts)
      in hosts)"

section \<open>Matching\<close>

text \<open>The TTL of a record: its own when set, else \<^verbatim>\<open>uint32(*defaultTtl)\<close>.\<close>

definition ttl_or_default :: "env \<Rightarrow> 32 word option \<Rightarrow> 32 word" where
  "ttl_or_default e t = (case t of Some v \<Rightarrow> v | None \<Rightarrow> word_of_int (defaultTtl e))"

definition mk_A :: "env \<Rightarrow> string \<Rightarrow> 32 word \<Rightarrow> string \<Rightarrow> RR" where
  "mk_A e fqdn ttl s =
     RR_A \<lparr>Name = fqdn, Rrtype = TypeA, Class = ClassINET, Ttl = ttl\<rparr> (ParseIP e s)"

definition mk_CNAME :: "string \<Rightarrow> 32 word \<Rightarrow> string \<Rightarrow> RR" where
  "mk_CNAME fqdn ttl target =
     RR_CNAME \<lparr>Name = fqdn, Rrtype = TypeCNAME, Class = ClassINET, Ttl = ttl\<rparr> target"

text \<open>
  The body of \<^verbatim>\<open>if ok { switch qtype { ... } }\<close>: the records collected for one
  client section. Only the A case draws random numbers.
\<close>

definition client_records ::
  "env \<Rightarrow> ClientAnswers \<Rightarrow> 16 word \<Rightarrow> string \<Rightarrow> world \<Rightarrow> RR list \<times> world" where
  "client_records e client qtype fqdn w =
     (if qtype = TypeA then
        (case A client fqdn of
           Some res \<Rightarrow>
             (if length (a_Answer res) > 0
              then shuffle (map (mk_A e fqdn (ttl_or_default e (a_Ttl res))) (a_Answer res)) w
              else ([], w))
         | None \<Rightarrow> ([], w))
      else if qtype = TypeCNAME then
        (case Cname client fqdn of
           Some res \<Rightarrow> ([mk_CNAME fqdn (ttl_or_default e (c_Ttl res)) (c_Answer res)], w)
         | None \<Rightarrow> ([], w))
      else ([], w))"

definition Matching ::
  "env \<Rightarrow> Answers \<Rightarrow> 16 word \<Rightarrow> string \<Rightarrow> string \<Rightarrow> world \<Rightarrow> RR list \<times> bool \<times> world" where
  "Matching e answers qtype clientIp fqdn w =
     (case (case answers clientIp of
              Some client \<Rightarrow> client_records e client qtype fqdn w
            | None \<Rightarrow> ([], w)) of
        (records, w') \<Rightarrow>
          (if length records > 0 then (records, True, w') else ([], False, w')))"

section \<open>Addresses\<close>

text \<open>
  The only panic the code of \<^verbatim>\<open>Addresses\<close> can raise by itself: the type assertion
  \<^verbatim>\<open>result[0].(*dns.CNAME)\<close> on a record of another type.
\<close>

datatype panic = TypeAssertion

type_synonym result = "(panic + RR list \<times> bool) \<times> world"

text \<open>
  \<^verbatim>\<open>Addresses\<close>. The source recurses with no bound of its own, so the model is a
  partial function: \<open>None\<close> is an invocation that never returns. The CNAME block
  either leaves the function (\<open>Inl\<close>, with the returned value) or falls through to the
  A lookup (\<open>Inr\<close>, with the world as it is by then).
\<close>

partial_function (option) Addresses ::
  "env \<Rightarrow> Answers \<Rightarrow> string \<Rightarrow> string \<Rightarrow> RR list \<Rightarrow> world \<Rightarrow> result option" where
  "Addresses e answers clientIp fqdn0 cnameParents w =
     (let fqdn = Fqdn fqdn0 in
      if length cnameParents \<ge> 10 then Some (Inr ([], False), w)
      else
        Option.bind
          (case Matching e answers TypeCNAME clientIp fqdn w of
             (result, ok, w1) \<Rightarrow>
               if ok \<and> length result > 0 then
                 (case hd result of
                    RR_CNAME hdr target \<Rightarrow>
                      if Fqdn target = fqdn then Some (Inl (Inr ([], False), w1))
                      else
                        Option.bind
                          (Addresses e answers clientIp (Fqdn target)
                             (cnameParents @ [hd result]) w1)
                          (\<lambda>r. case r of
                             (Inl p, w2) \<Rightarrow> Some (Inl (Inl p, w2))
                           | (Inr (children, ok'), w2) \<Rightarrow>
                               if ok' \<and> length children > 0
                               then Some (Inl (Inr (hd result # children, True), w2))
                               else Some (Inr w2))
                  | _ \<Rightarrow> Some (Inl (Inl TypeAssertion, w1)))
               else Some (Inr w1))
          (\<lambda>flow. case flow of
             Inl returned \<Rightarrow> Some returned
           | Inr w1 \<Rightarrow>
               (case Matching e answers TypeA clientIp fqdn w1 of
                  (result, ok, w2) \<Rightarrow>
                    if ok \<and> length result > 0 then
                      (case shuffle result w2 of (result', w3) \<Rightarrow> Some (Inr (result', True), w3))
                    else if clientIp \<noteq> DEFAULT_KEY then
                      Addresses e answers DEFAULT_KEY fqdn [] w2
                    else if length cnameParents > 0 then
                      (let hosts = RecurseHosts answers clientIp;
                           w3 = w2\<lparr>upstream_log := upstream_log w2 @
                                  [\<lparr>uc_client = clientIp, uc_depth = length cnameParents,
                                    uc_fqdn = fqdn, uc_hosts = hosts\<rparr>]\<rparr>
                       in case ResolveTryAll e (upstream_log w2) fqdn hosts of
                            Inr answer \<Rightarrow> Some (Inr (answer, True), w3)
                          | Inl err \<Rightarrow> Some (Inr ([], False), w3))
                    else Some (Inr ([], False), w2))))"

section \<open>ReadAnswersFile\<close>

text \<open>
  The errors \<^verbatim>\<open>ReadAnswersFile\<close> can meet: those of reading the file, of which
  \<^verbatim>\<open>os.IsNotExist\<close> singles out the missing file, and those of the JSON decoder:
  a document that is not JSON, and a JSON value of the wrong type for the Go value it
  is decoded into.
\<close>

datatype error = NotExist | OtherIO string | Syntax string | TypeMismatch string

definition IsNotExist :: "error \<Rightarrow> bool" where
  "IsNotExist err = (err = NotExist)"

text \<open>
  \<^verbatim>\<open>ReadAnswersFile\<close>, over the two library calls it makes: \<^verbatim>\<open>ioutil.ReadFile\<close>
  gives the bytes of the file or an error, \<^verbatim>\<open>json.Unmarshal(data, &out)\<close> fills
  \<^verbatim>\<open>out\<close> and gives an error or nil. The result is the pair \<^verbatim>\<open>(out, err)\<close>, with
  \<open>None\<close> for a nil error; the nil map returned after a failed read has no entry,
  like the empty one.
\<close>

definition ReadAnswersFile ::
  "(string \<Rightarrow> error + 8 word list) \<Rightarrow>
   (8 word list \<Rightarrow> Answers \<Rightarrow> Answers \<times> error option) \<Rightarrow>
   string \<Rightarrow> Answers \<times> error option" where
  "ReadAnswersFile ReadFile Unmarshal path =
     (case ReadFile path of
        Inl err \<Rightarrow>
          if IsNotExist err then (Map.empty, None)
          else (Map.empty, Some err)
      | Inr data \<Rightarrow> (let out = Map.empty in Unmarshal data out))"

section \<open>Notions used to state the properties\<close>

text \<open>The CNAME entry that a client section holds for a name, if any.\<close>

definition cname_entry :: "Answers \<Rightarrow> string \<Rightarrow> string \<Rightarrow> RecordCname option" where
  "cname_entry answers clientIp fqdn =
     (case answers clientIp of Some client \<Rightarrow> Cname client fqdn | None \<Rightarrow> None)"

text \<open>The A entry that a client section holds for a name, if it lists an address.\<close>

definition a_entry :: "Answers \<Rightarrow> string \<Rightarrow> string \<Rightarrow> RecordA option" where
  "a_entry answers clientIp fqdn =
     (case answers clientIp of
        Some client \<Rightarrow>
          (case A client fqdn of
             Some res \<Rightarrow> if a_Answer res = [] then None else Some res
           | None \<Rightarrow> None)
      | None \<Rightarrow> None)"

text \<open>The records \<^verbatim>\<open>Matching\<close> builds from an entry, in the order of the entry.\<close>

definition a_records :: "env \<Rightarrow> string \<Rightarrow> RecordA \<Rightarrow> RR list" where
  "a_records e fqdn res = map (mk_A e fqdn (ttl_or_default e (a_Ttl res))) (a_Answer res)"

definition cname_record :: "env \<Rightarrow> string \<Rightarrow> RecordCname \<Rightarrow> RR" where
  "cname_record e fqdn res = mk_CNAME fqdn (ttl_or_default e (c_Ttl res)) (c_Answer res)"

text \<open>
  \<^verbatim>\<open>Addresses\<close> from \<^verbatim>\<open>// Look for an A entry\<close> to its end, for a name that is
  already normalised: the A lookup with its two shuffles, the default section, the
  upstream delegate, the final failure.
\<close>

definition lookup_onwards ::
  "env \<Rightarrow> Answers \<Rightarrow> string \<Rightarrow> string \<Rightarrow> RR list \<Rightarrow> world \<Rightarrow> result option" where
  "lookup_onwards e answers clientIp fqdn cnameParents w =
     (case a_entry answers clientIp fqdn of
        Some res \<Rightarrow>
          (case shuffle (a_records e fqdn res) w of
             (result, w1) \<Rightarrow>
               (case shuffle result w1 of (result', w2) \<Rightarrow> Some (Inr (result', True), w2)))
      | None \<Rightarrow>
          if clientIp \<noteq> DEFAULT_KEY then Addresses e answers DEFAULT_KEY fqdn [] w
          else if cnameParents \<noteq> [] then
            (let hosts = RecurseHosts answers clientIp;
                 w' = w\<lparr>upstream_log := upstream_log w @
                        [\<lparr>uc_client = clientIp, uc_depth = length cnameParents,
                          uc_fqdn = fqdn, uc_hosts = hosts\<rparr>]\<rparr>
             in case ResolveTryAll e (upstream_log w) fqdn hosts of
                  Inr answer \<Rightarrow> Some (Inr (answer, True), w')
                | Inl err \<Rightarrow> Some (Inr ([], False), w'))
          else Some (Inr ([], False), w))"

text \<open>
  The log of upstream calls of \<open>w'\<close> is that of \<open>w\<close> with calls added at its end, each
  made under the default key with at least one CNAME parent.
\<close>

definition log_extends :: "world \<Rightarrow> world \<Rightarrow> bool" where
  "log_extends w w' =
     (\<exists>new. upstream_log w' = upstream_log w @ new \<and>
        list_all (\<lambda>u. uc_client u = DEFAULT_KEY \<and> 0 < uc_depth u) new)"

text \<open>An invocation started in world \<open>w\<close> returns, without a panic.\<close>

definition returns :: "world \<Rightarrow> result option \<Rightarrow> bool" where
  "returns w r = (\<exists>records ok w'. r = Some (Inr (records, ok), w') \<and> log_extends w w')"

text \<open>
  A chain of CNAME entries in one client section: each name of the list but the last
  has a CNAME entry there whose normalised target is the next name of the list. A list
  of \<open>n + 1\<close> names is a chain of \<open>n\<close> hops.
\<close>

fun cname_chain :: "Answers \<Rightarrow> string \<Rightarrow> string list \<Rightarrow> bool" where
  "cname_chain answers c (k # k' # ks) =
     (case cname_entry answers c k of
        Some res \<Rightarrow> Fqdn (c_Answer res) = k' \<and> cname_chain answers c (k' # ks)
      | None \<Rightarrow> False)"
| "cname_chain answers c ks = True"

section \<open>Example configurations\<close>

text \<open>
  A stand-in for \<^verbatim>\<open>net.ParseIP\<close> that knows the addresses used below, in the
  16-byte form the library gives an IPv4 address, and rejects any other text.
\<close>

definition v4 :: "8 word \<Rightarrow> 8 word \<Rightarrow> 8 word \<Rightarrow> 8 word \<Rightarrow> IP" where
  "v4 a b c d = [0, 0, 0, 0, 0, 0, 0, 0, 0, 0, 255, 255, a, b, c, d]"

definition table_ParseIP :: "string \<Rightarrow> IP option" where
  "table_ParseIP =
     map_of [(''10.1.2.3'', v4 10 1 2 3), (''10.1.2.4'', v4 10 1 2 4),
             (''10.1.2.5'', v4 10 1 2 5), (''10.1.2.6'', v4 10 1 2 6),
             (''1.2.3.4'', v4 1 2 3 4)]"

text \<open>An upstream delegate that reaches no server.\<close>

definition no_upstream :: "upstream_call list \<Rightarrow> string \<Rightarrow> string list \<Rightarrow> upstream_error + RR list" where
  "no_upstream log fqdn hosts = Inl UpstreamFailure"

definition example_env :: env where
  "example_env = \<lparr>defaultTtl = 600, ParseIP = table_ParseIP, ResolveTryAll = no_upstream\<rparr>"

definition draws :: "nat \<Rightarrow> nat" where
  "draws k = 3 * k + 1"

definition example_world :: world where
  "example_world = \<lparr>rand_src = draws, upstream_log = []\<rparr>"

text \<open>The answers file of the README: the section of client 10.1.2.2 and the default one.\<close>

definition readme_answers :: Answers where
  "readme_answers =
     [''10.1.2.2'' \<mapsto>
        \<lparr>Recurse = [''8.8.4.4:53'', ''8.8.8.8''],
         A = [''mysql.'' \<mapsto> \<lparr>a_Ttl = Some 42, a_Answer = [''10.1.2.3'']\<rparr>,
              ''web.'' \<mapsto> \<lparr>a_Ttl = None,
                                a_Answer = [''10.1.2.4'', ''10.1.2.5'', ''10.1.2.6'']\<rparr>],
         Cname = [''www.'' \<mapsto> \<lparr>c_Ttl = Some 42, c_Answer = ''web.''\<rparr>]\<rparr>,
      ''default'' \<mapsto>
        \<lparr>Recurse = [''8.8.8.8''],
         A = [''foo.'' \<mapsto> \<lparr>a_Ttl = None, a_Answer = [''1.2.3.4'']\<rparr>],
         Cname = [''website.'' \<mapsto> \<lparr>c_Ttl = None, c_Answer = ''www.''\<rparr>,
                  ''external.'' \<mapsto> \<lparr>c_Ttl = None, c_Answer = ''rancher.com.''\<rparr>]\<rparr>]"

text \<open>
  A configuration with the unusual entries: a name with a CNAME to itself and an A
  entry, a name with a CNAME that leads nowhere and an A entry one of whose addresses
  does not parse, and a CNAME to a name with a single address.
\<close>

definition odd_answers :: Answers where
  "odd_answers =
     [''10.1.2.2'' \<mapsto>
        \<lparr>Recurse = [],
         A = [''mysql.'' \<mapsto> \<lparr>a_Ttl = Some 42, a_Answer = [''10.1.2.3'']\<rparr>,
              ''both.'' \<mapsto> \<lparr>a_Ttl = None, a_Answer = [''10.1.2.4'', ''not-an-address'']\<rparr>,
              ''loop.'' \<mapsto> \<lparr>a_Ttl = None, a_Answer = [''10.1.2.5'']\<rparr>],
         Cname = [''db.'' \<mapsto> \<lparr>c_Ttl = None, c_Answer = ''mysql.''\<rparr>,
                  ''both.'' \<mapsto> \<lparr>c_Ttl = None, c_Answer = ''gone.''\<rparr>,
                  ''loop.'' \<mapsto> \<lparr>c_Ttl = None, c_Answer = ''loop''\<rparr>]\<rparr>,
      ''default'' \<mapsto>
        \<lparr>Recurse = [''8.8.8.8''],
         A = [''loop.'' \<mapsto> \<lparr>a_Ttl = None, a_Answer = [''1.2.3.4'']\<rparr>],
         Cname = Map.empty\<rparr>]"

text \<open>
  Two CNAME chains \<open>h0. \<rightarrow> h1. \<rightarrow> \<dots>\<close>: ten hops and no address for client 10.0.0.10,
  nine hops and an address at the end for client 10.0.0.9. There is no default section.
\<close>

definition hop :: "string \<Rightarrow> string \<Rightarrow> string \<times> RecordCname" where
  "hop k k' = (k, \<lparr>c_Ttl = None, c_Answer = k'\<rparr>)"

definition chain_names :: "string list" where
  "chain_names = [''h0.'', ''h1.'', ''h2.'', ''h3.'', ''h4.'', ''h5.'', ''h6.'', ''h7.'',
                  ''h8.'', ''h9.'', ''h10.'']"

definition chain_answers :: Answers where
  "chain_answers =
     [''10.0.0.10'' \<mapsto>
        \<lparr>Recurse = [], A = Map.empty,
         Cname = map_of (map2 hop (butlast chain_names) (tl chain_names))\<rparr>,
      ''10.0.0.9'' \<mapsto>
        \<lparr>Recurse = [],
         A = [''h9.'' \<mapsto> \<lparr>a_Ttl = None, a_Answer = [''10.1.2.3'']\<rparr>],
         Cname = map_of (map2 hop (butlast (butlast chain_names)) (tl (butlast chain_names)))\<rparr>]"

text \<open>The bytes of a text.\<close>

definition bytes_of :: "string \<Rightarrow> 8 word list" where
  "bytes_of s = map (\<lambda>c. of_nat (of_char c)) s"

text \<open>
  A document that is JSON but not an answers file: the default section gives a list of
  resolvers, and a number where the map of its A entries belongs.
\<close>

definition typed_document :: "8 word list" where
  \<open>typed_document = bytes_of ''{"default":{"recurse":["8.8.8.8"],"a":5}}''\<close>

text \<open>
  A file system with a well-formed answers file (the empty object), a file that is not
  JSON (an opening brace and nothing else), the document above, and a file that cannot
  be read.
\<close>

definition example_ReadFile :: "string \<Rightarrow> error + 8 word list" where
  "example_ReadFile path =
     (if path = ''answers.json'' then Inr [123, 125]
      else if path = ''broken.json'' then Inr [123]
      else if path = ''typed.json'' then Inr typed_document
      else if path = ''/root/secret.json'' then Inl (OtherIO ''permission denied'')
      else Inl NotExist)"

text \<open>
  What \<^verbatim>\<open>json.Unmarshal\<close> does with these documents. It checks the syntax of the whole
  document before it stores anything, so that a syntax error leaves \<^verbatim>\<open>out\<close> as it
  was. A value of the wrong type for its field is skipped and kept as the error to
  return, and decoding goes on: the section of the default key is stored with the
  resolver list it gives and a nil map of A entries.
\<close>

definition example_Unmarshal :: "8 word list \<Rightarrow> Answers \<Rightarrow> Answers \<times> error option" where
  "example_Unmarshal data out =
     (if data = [123, 125] then (out, None)
      else if data = typed_document then
        (out(''default'' \<mapsto> \<lparr>Recurse = [''8.8.8.8''], A = Map.empty, Cname = Map.empty\<rparr>),
         Some (TypeMismatch
           ''json: cannot unmarshal number into Go value of type map[string]main.RecordA''))
      else (out, Some (Syntax ''unexpected end of JSON input'')))"

section \<open>Facts about Fqdn and shuffle\<close>

lemma Fqdn_idem: "Fqdn (Fqdn s) = Fqdn s"
  by (simp add: Fqdn_def IsFqdn_def)


lemma shuffle_step_inv:
  assumes "i < length (fst s)"
  shows "mset (fst (shuffle_step i s)) = mset (fst s)"
    and "length (fst (shuffle_step i s)) = length (fst s)"
    and "upstream_log (snd (shuffle_step i s)) = upstream_log (snd s)"
proof -
  obtain items w where s: "s = (items, w)" by (cases s)
  have j: "rand_src w 0 mod Suc i < length items"
    using assms s by (simp add: less_le_trans[OF mod_less_divisor] Suc_leI)
  show "mset (fst (shuffle_step i s)) = mset (fst s)"
    using assms j s by (simp add: shuffle_step_def Intn_def mset_swap)
  show "length (fst (shuffle_step i s)) = length (fst s)"
    using s by (simp add: shuffle_step_def Intn_def)
  show "upstream_log (snd (shuffle_step i s)) = upstream_log (snd s)"
    using s by (simp add: shuffle_step_def Intn_def)
qed

lemma fold_shuffle_step_inv:
  "\<forall>i \<in> set is. i < length (fst s) \<Longrightarrow>
   mset (fst (fold shuffle_step is s)) = mset (fst s) \<and>
   length (fst (fold shuffle_step is s)) = length (fst s) \<and>
   upstream_log (snd (fold shuffle_step is s)) = upstream_log (snd s)"
proof (induction "is" arbitrary: s)
  case Nil
  then show ?case by simp
next
  case (Cons i "is")
  have i: "i < length (fst s)" using Cons.prems by simp
  have "\<forall>k \<in> set is. k < length (fst (shuffle_step i s))"
    using Cons.prems by (simp add: shuffle_step_inv(2)[OF i])
  from Cons.IH[OF this] show ?case
    by (simp add: shuffle_step_inv[OF i])
qed

lemma shuffle_mset: "mset (fst (shuffle items w)) = mset items"
  and shuffle_length: "length (fst (shuffle items w)) = length items"
  and shuffle_log: "upstream_log (snd (shuffle items w)) = upstream_log w"
  using fold_shuffle_step_inv[of "[0..<length items]" "(items, w)"]
  by (simp_all add: shuffle_def)

lemma shuffle_eq_Nil: "fst (shuffle items w) = [] \<longleftrightarrow> items = []"
  using shuffle_length[of items w] by (metis length_0_conv)

section \<open>Facts about Matching and the body of Addresses\<close>

lemma Matching_CNAME:
  "Matching e answers TypeCNAME clientIp fqdn w =
     (case cname_entry answers clientIp fqdn of
        Some res \<Rightarrow> ([cname_record e fqdn res], True, w)
      | None \<Rightarrow> ([], False, w))"
  by (simp add: Matching_def client_records_def cname_entry_def cname_record_def
      TypeA_def TypeCNAME_def split: option.splits)

lemma Matching_A:
  "Matching e answers TypeA clientIp fqdn w =
     (case a_entry answers clientIp fqdn of
        Some res \<Rightarrow>
          (fst (shuffle (a_records e fqdn res) w), True, snd (shuffle (a_records e fqdn res) w))
      | None \<Rightarrow> ([], False, w))"
proof (cases "a_entry answers clientIp fqdn")
  case None
  then show ?thesis
    by (auto simp: Matching_def client_records_def a_entry_def split: option.splits if_splits)
next
  case (Some res)
  then obtain client where c: "answers clientIp = Some client" "A client fqdn = Some res"
    "a_Answer res \<noteq> []"
    by (auto simp: a_entry_def split: option.splits if_splits)
  have "fst (shuffle (a_records e fqdn res) w) \<noteq> []"
    using c(3) by (simp add: shuffle_eq_Nil a_records_def)
  then show ?thesis using Some c
    by (cases "shuffle (a_records e fqdn res) w")
       (simp add: Matching_def client_records_def a_records_def)
qed

lemma tail_eq:
  "(case Matching e answers TypeA clientIp fqdn w1 of
      (result, ok, w2) \<Rightarrow>
        if ok \<and> length result > 0 then
          (case shuffle result w2 of (result', w3) \<Rightarrow> Some (Inr (result', True), w3))
        else if clientIp \<noteq> DEFAULT_KEY then
          Addresses e answers DEFAULT_KEY fqdn [] w2
        else if length cnameParents > 0 then
          (let hosts = RecurseHosts answers clientIp;
               w3 = w2\<lparr>upstream_log := upstream_log w2 @
                      [\<lparr>uc_client = clientIp, uc_depth = length cnameParents,
                        uc_fqdn = fqdn, uc_hosts = hosts\<rparr>]\<rparr>
           in case ResolveTryAll e (upstream_log w2) fqdn hosts of
                Inr answer \<Rightarrow> Some (Inr (answer, True), w3)
              | Inl err \<Rightarrow> Some (Inr ([], False), w3))
        else Some (Inr ([], False), w2))
    = lookup_onwards e answers clientIp fqdn cnameParents w1"
proof (cases "a_entry answers clientIp fqdn")
  case None
  then show ?thesis
    by (simp add: Matching_A lookup_onwards_def)
next
  case (Some res)
  then have "a_Answer res \<noteq> []"
    by (auto simp: a_entry_def split: option.splits if_splits)
  then have "fst (shuffle (a_records e fqdn res) w1) \<noteq> []"
    by (simp add: shuffle_eq_Nil a_records_def)
  then show ?thesis using Some
    by (simp add: Matching_A lookup_onwards_def split: prod.splits)
qed

lemmas Addresses_step = Addresses.simps[unfolded tail_eq]

lemma Addresses_unfold:
  "Addresses e answers clientIp fqdn0 cnameParents w =
     (if length cnameParents \<ge> 10 then Some (Inr ([], False), w)
      else
        (case cname_entry answers clientIp (Fqdn fqdn0) of
           Some res \<Rightarrow>
             if Fqdn (c_Answer res) = Fqdn fqdn0 then Some (Inr ([], False), w)
             else
               Option.bind
                 (Addresses e answers clientIp (Fqdn (c_Answer res))
                    (cnameParents @ [cname_record e (Fqdn fqdn0) res]) w)
                 (\<lambda>r. case r of
                    (Inl p, w1) \<Rightarrow> Some (Inl p, w1)
                  | (Inr (children, ok), w1) \<Rightarrow>
                      if ok \<and> children \<noteq> []
                      then Some (Inr (cname_record e (Fqdn fqdn0) res # children, True), w1)
                      else lookup_onwards e answers clientIp (Fqdn fqdn0) cnameParents w1)
         | None \<Rightarrow> lookup_onwards e answers clientIp (Fqdn fqdn0) cnameParents w))"
proof (cases "cname_entry answers clientIp (Fqdn fqdn0)")
  case None
  then show ?thesis
    by (subst Addresses_step) (simp add: Matching_CNAME)
next
  case (Some res)
  show ?thesis
  proof (cases "Addresses e answers clientIp (Fqdn (c_Answer res))
                    (cnameParents @ [cname_record e (Fqdn fqdn0) res]) w")
    case None
    then show ?thesis using Some
      by (subst Addresses_step) (simp add: Matching_CNAME cname_record_def mk_CNAME_def)
  next
    case (Some r)
    then show ?thesis using \<open>cname_entry answers clientIp (Fqdn fqdn0) = Some res\<close>
      by (subst Addresses_step)
         (auto simp: Matching_CNAME cname_record_def mk_CNAME_def Let_def
            split: prod.splits sum.splits)
  qed
qed

section \<open>Induction along the calls of Addresses\<close>

lemma Addresses_induct [consumes 0, case_names step]:
  assumes step: "\<And>c q ps w.
     (\<And>res w'. length ps < 10 \<Longrightarrow> cname_entry answers c (Fqdn q) = Some res \<Longrightarrow>
         Fqdn (c_Answer res) \<noteq> Fqdn q \<Longrightarrow>
         P c (Fqdn (c_Answer res)) (ps @ [cname_record e (Fqdn q) res]) w') \<Longrightarrow>
     (\<And>w'. c \<noteq> DEFAULT_KEY \<Longrightarrow> P DEFAULT_KEY (Fqdn q) [] w') \<Longrightarrow>
     P c q ps w"
  shows "P c q ps w"
proof (induction "(if c = DEFAULT_KEY then 0 else 11) + (10 - length ps)"
       arbitrary: c q ps w rule: less_induct)
  case less
  show ?case
  proof (rule step)
    fix res w'
    assume "length ps < 10"
    then show "P c (Fqdn (c_Answer res)) (ps @ [cname_record e (Fqdn q) res]) w'"
      by (intro less) simp
  next
    fix w'
    assume "c \<noteq> DEFAULT_KEY"
    then show "P DEFAULT_KEY (Fqdn q) [] w'"
      by (intro less) simp
  qed
qed

lemma log_extends_refl: "log_extends w w"
  by (simp add: log_extends_def)

lemma log_extends_same: "upstream_log w' = upstream_log w \<Longrightarrow> log_extends w w'"
  by (simp add: log_extends_def)

lemma log_extends_trans: "log_extends w w1 \<Longrightarrow> log_extends w1 w2 \<Longrightarrow> log_extends w w2"
  unfolding log_extends_def
proof (elim exE conjE)
  fix new1 new2
  assume "upstream_log w1 = upstream_log w @ new1" "upstream_log w2 = upstream_log w1 @ new2"
    and "list_all (\<lambda>u. uc_client u = DEFAULT_KEY \<and> 0 < uc_depth u) new1"
    and "list_all (\<lambda>u. uc_client u = DEFAULT_KEY \<and> 0 < uc_depth u) new2"
  then have "upstream_log w2 = upstream_log w @ (new1 @ new2) \<and>
    list_all (\<lambda>u. uc_client u = DEFAULT_KEY \<and> 0 < uc_depth u) (new1 @ new2)"
    by simp
  then show "\<exists>new. upstream_log w2 = upstream_log w @ new \<and>
    list_all (\<lambda>u. uc_client u = DEFAULT_KEY \<and> 0 < uc_depth u) new"
    by blast
qed

lemma lookup_onwards_returns:
  assumes "\<And>w'. clientIp \<noteq> DEFAULT_KEY \<Longrightarrow> returns w' (Addresses e answers DEFAULT_KEY fqdn [] w')"
  shows "returns w (lookup_onwards e answers clientIp fqdn ps w)"
proof (cases "a_entry answers clientIp fqdn")
  case (Some res)
  obtain r1 w1 where s1: "shuffle (a_records e fqdn res) w = (r1, w1)"
    by (cases "shuffle (a_records e fqdn res) w")
  obtain r2 w2 where s2: "shuffle r1 w1 = (r2, w2)"
    by (cases "shuffle r1 w1")
  have "upstream_log w2 = upstream_log w"
    using shuffle_log[of "a_records e fqdn res" w] shuffle_log[of r1 w1] s1 s2 by simp
  then show ?thesis using Some s1 s2
    by (auto simp: lookup_onwards_def returns_def log_extends_same)
next
  case None
  show ?thesis
  proof (cases "clientIp = DEFAULT_KEY")
    case False
    then show ?thesis using None assms by (simp add: lookup_onwards_def)
  next
    case True
    then show ?thesis using None
      by (auto simp: lookup_onwards_def returns_def Let_def log_extends_def split: sum.splits)
  qed
qed


lemma Addresses_returns: "returns w (Addresses e answers c q ps w)"
proof (induction c q ps w rule: Addresses_induct[where e = e and answers = answers])
  case (step c q ps w)
  have tail: "returns w' (lookup_onwards e answers c (Fqdn q) ps w')" for w'
    by (rule lookup_onwards_returns) (rule step.IH(2))
  show ?case
  proof (cases "length ps < 10")
    case False
    then show ?thesis
      by (subst Addresses_unfold) (auto simp: returns_def log_extends_refl)
  next
    case short: True
    show ?thesis
    proof (cases "cname_entry answers c (Fqdn q)")
      case None
      then show ?thesis using short tail
        by (subst Addresses_unfold) simp
    next
      case (Some res)
      show ?thesis
      proof (cases "Fqdn (c_Answer res) = Fqdn q")
        case True
        then show ?thesis using Some short
          by (subst Addresses_unfold) (auto simp: returns_def log_extends_refl)
      next
        case False
        from step.IH(1)[OF short Some False, of w]
        obtain children ok w1 where
          rec: "Addresses e answers c (Fqdn (c_Answer res))
                  (ps @ [cname_record e (Fqdn q) res]) w = Some (Inr (children, ok), w1)"
          and ext: "log_extends w w1"
          by (auto simp: returns_def)
        have "returns w (lookup_onwards e answers c (Fqdn q) ps w1)"
          using tail[of w1] ext by (auto simp: returns_def intro: log_extends_trans)
        then show ?thesis using Some short False rec ext
          by (subst Addresses_unfold) (auto simp: returns_def)
      qed
    qed
  qed
qed

section \<open>Termination\<close>

text \<open>
  Claim C9. Resolution terminates on every input: for every store, client key, name and
  ancestry chain, and whatever the random source and the upstream delegate do,
  \<^verbatim>\<open>Addresses\<close> returns a record list and a flag, without a panic.
\<close>

theorem Addresses_terminates:
  "\<exists>records ok w'.
     Addresses e answers clientIp fqdn cnameParents w = Some (Inr (records, ok), w')"
  using Addresses_returns[of w e answers clientIp fqdn cnameParents]
  by (auto simp: returns_def)

section \<open>The exact-loop guard\<close>

lemma Addresses_self_loop:
  assumes "cname_entry answers clientIp (Fqdn fqdn) = Some res"
    and "Fqdn (c_Answer res) = Fqdn fqdn"
  shows "Addresses e answers clientIp fqdn cnameParents w = Some (Inr ([], False), w)"
  using assms by (subst Addresses_unfold) simp

text \<open>
  Claim C2. For every client key, name and ancestry chain: if the section of the client
  has a CNAME entry for the normalised name whose target normalises to that same name,
  \<^verbatim>\<open>Addresses\<close> returns \<open>(nil, false)\<close> at once, with no random draw and no upstream
  call, whatever else is configured.
\<close>

theorem exact_loop_guard:
  assumes "cname_entry answers clientIp (Fqdn fqdn) = Some res"
    and "Fqdn (c_Answer res) = Fqdn fqdn"
  shows "Addresses e answers clientIp fqdn cnameParents w = Some (Inr ([], False), w)"
  using assms by (rule Addresses_self_loop)

lemma Fqdn_loop: "Fqdn ''loop'' = ''loop.''"
  by (simp add: Fqdn_def IsFqdn_def)

text \<open>
  The name \<open>loop.\<close> of client 10.1.2.2 is its own CNAME; the client and the default
  section both have an address for it, and the default section names a resolver.
\<close>

theorem exact_loop_guard_witness:
  "cname_entry odd_answers ''10.1.2.2'' (Fqdn ''loop'')
     = Some \<lparr>c_Ttl = None, c_Answer = ''loop''\<rparr>
   \<and> Fqdn (c_Answer \<lparr>c_Ttl = None, c_Answer = ''loop''\<rparr>) = Fqdn ''loop''
   \<and> a_entry odd_answers ''10.1.2.2'' (Fqdn ''loop'') \<noteq> None
   \<and> a_entry odd_answers DEFAULT_KEY (Fqdn ''loop'') \<noteq> None
   \<and> RecurseHosts odd_answers DEFAULT_KEY \<noteq> []
   \<and> Addresses example_env odd_answers ''10.1.2.2'' ''loop'' [] example_world
       = Some (Inr ([], False), example_world)"
proof -
  have h1: "cname_entry odd_answers ''10.1.2.2'' (Fqdn ''loop'')
              = Some \<lparr>c_Ttl = None, c_Answer = ''loop''\<rparr>"
    by (simp add: Fqdn_loop cname_entry_def odd_answers_def)
  have h2: "Fqdn (c_Answer \<lparr>c_Ttl = None, c_Answer = ''loop''\<rparr>) = Fqdn ''loop''"
    by simp
  have a1: "a_entry odd_answers ''10.1.2.2'' (Fqdn ''loop'') \<noteq> None"
    by (simp add: Fqdn_loop a_entry_def odd_answers_def)
  have a2: "a_entry odd_answers DEFAULT_KEY (Fqdn ''loop'') \<noteq> None"
    by (simp add: Fqdn_loop a_entry_def odd_answers_def DEFAULT_KEY_def)
  have a3: "RecurseHosts odd_answers DEFAULT_KEY \<noteq> []"
    by (simp add: RecurseHosts_def recurseHostsFor_def odd_answers_def DEFAULT_KEY_def)
  show ?thesis
    using exact_loop_guard[OF h1 h2, of example_env "[]" example_world] h1 h2 a1 a2 a3
    by simp
qed

section \<open>Clients without a section\<close>

lemma Addresses_Fqdn:
  "Addresses e answers clientIp (Fqdn fqdn) cnameParents w =
   Addresses e answers clientIp fqdn cnameParents w"
  by (rule trans[OF Addresses_unfold[of e answers clientIp "Fqdn fqdn" cnameParents w,
          unfolded Fqdn_idem]
        Addresses_unfold[of e answers clientIp fqdn cnameParents w, symmetric]])

lemma Addresses_unknown_client:
  assumes "answers clientIp = None"
  shows "Addresses e answers clientIp fqdn [] w = Addresses e answers DEFAULT_KEY fqdn [] w"
proof (cases "clientIp = DEFAULT_KEY")
  case True
  then show ?thesis by simp
next
  case False
  have "Addresses e answers clientIp fqdn [] w = Addresses e answers DEFAULT_KEY (Fqdn fqdn) [] w"
    using assms False
    by (subst Addresses_unfold) (simp add: cname_entry_def a_entry_def lookup_onwards_def)
  then show ?thesis by (simp add: Addresses_Fqdn)
qed

text \<open>
  Claim C4. For every store, every client key with no entry in the store and every
  name, resolving for that client with an empty ancestry chain gives exactly what
  resolving for the default key with an empty ancestry chain gives, from the same
  world: the same records, the same flag, the same random draws and upstream calls.
\<close>

theorem unknown_client_is_default:
  assumes "answers clientIp = None"
  shows "Addresses e answers clientIp fqdn [] w = Addresses e answers DEFAULT_KEY fqdn [] w"
  using assms by (rule Addresses_unknown_client)

theorem unknown_client_is_default_witness:
  "readme_answers ''9.9.9.9'' = None
   \<and> Addresses example_env readme_answers ''9.9.9.9'' ''foo.'' [] example_world
       = Addresses example_env readme_answers DEFAULT_KEY ''foo.'' [] example_world"
proof -
  have h: "readme_answers ''9.9.9.9'' = None"
    by (simp add: readme_answers_def)
  show ?thesis
    using unknown_client_is_default[of readme_answers "''9.9.9.9''" example_env "''foo.''"
        example_world] h
    by simp
qed

section \<open>One invocation, case by case\<close>

lemma lookup_onwards_hit:
  assumes "a_entry answers clientIp fqdn = Some ra"
  shows "\<exists>records w'. lookup_onwards e answers clientIp fqdn cnameParents w
            = Some (Inr (records, True), w')
          \<and> mset records = mset (a_records e fqdn ra)
          \<and> upstream_log w' = upstream_log w"
proof -
  obtain r1 w1 where s1: "shuffle (a_records e fqdn ra) w = (r1, w1)"
    by (cases "shuffle (a_records e fqdn ra) w")
  obtain r2 w2 where s2: "shuffle r1 w1 = (r2, w2)"
    by (cases "shuffle r1 w1")
  have "mset r2 = mset (a_records e fqdn ra)"
    using shuffle_mset[of "a_records e fqdn ra" w] shuffle_mset[of r1 w1] s1 s2 by simp
  moreover have "upstream_log w2 = upstream_log w"
    using shuffle_log[of "a_records e fqdn ra" w] shuffle_log[of r1 w1] s1 s2 by simp
  ultimately show ?thesis using assms s1 s2
    by (simp add: lookup_onwards_def)
qed

lemma Addresses_cname_unresolved:
  assumes "length cnameParents < 10"
    and "cname_entry answers clientIp (Fqdn fqdn) = Some res"
    and "Fqdn (c_Answer res) \<noteq> Fqdn fqdn"
    and "Addresses e answers clientIp (Fqdn (c_Answer res))
           (cnameParents @ [cname_record e (Fqdn fqdn) res]) w = Some (Inr (children, ok), w1)"
    and "\<not> (ok \<and> children \<noteq> [])"
  shows "Addresses e answers clientIp fqdn cnameParents w
           = lookup_onwards e answers clientIp (Fqdn fqdn) cnameParents w1"
  using assms by (subst Addresses_unfold) auto

lemma Fqdn_dotted: "s \<noteq> [] \<Longrightarrow> last s = CHR ''.'' \<Longrightarrow> Fqdn s = s"
  by (simp add: Fqdn_def IsFqdn_def)

lemma Addresses_deep:
  "10 \<le> length cnameParents \<Longrightarrow>
   Addresses e answers clientIp fqdn cnameParents w = Some (Inr ([], False), w)"
  by (subst Addresses_unfold) simp

lemma Addresses_no_cname:
  "length cnameParents < 10 \<Longrightarrow> cname_entry answers clientIp (Fqdn fqdn) = None \<Longrightarrow>
   Addresses e answers clientIp fqdn cnameParents w
     = lookup_onwards e answers clientIp (Fqdn fqdn) cnameParents w"
  by (subst Addresses_unfold) simp

lemma Addresses_cname_resolved:
  assumes "length cnameParents < 10"
    and "cname_entry answers clientIp (Fqdn fqdn) = Some res"
    and "Fqdn (c_Answer res) \<noteq> Fqdn fqdn"
    and "Addresses e answers clientIp (Fqdn (c_Answer res))
           (cnameParents @ [cname_record e (Fqdn fqdn) res]) w = Some (Inr (children, True), w1)"
    and "children \<noteq> []"
  shows "Addresses e answers clientIp fqdn cnameParents w
           = Some (Inr (cname_record e (Fqdn fqdn) res # children, True), w1)"
  using assms by (subst Addresses_unfold) auto

lemma lookup_onwards_other_section:
  "a_entry answers clientIp fqdn = None \<Longrightarrow> clientIp \<noteq> DEFAULT_KEY \<Longrightarrow>
   lookup_onwards e answers clientIp fqdn cnameParents w
     = Addresses e answers DEFAULT_KEY fqdn [] w"
  by (simp add: lookup_onwards_def)

lemma lookup_onwards_nothing:
  "a_entry answers DEFAULT_KEY fqdn = None \<Longrightarrow>
   lookup_onwards e answers DEFAULT_KEY fqdn [] w = Some (Inr ([], False), w)"
  by (simp add: lookup_onwards_def)

lemma lookup_onwards_upstream:
  "a_entry answers DEFAULT_KEY fqdn = None \<Longrightarrow> cnameParents \<noteq> [] \<Longrightarrow>
   lookup_onwards e answers DEFAULT_KEY fqdn cnameParents w =
     Some (Inr (case ResolveTryAll e (upstream_log w) fqdn (RecurseHosts answers DEFAULT_KEY) of
                  Inr answer \<Rightarrow> (answer, True) | Inl err \<Rightarrow> ([], False)),
           w\<lparr>upstream_log := upstream_log w @
               [\<lparr>uc_client = DEFAULT_KEY, uc_depth = length cnameParents,
                 uc_fqdn = fqdn, uc_hosts = RecurseHosts answers DEFAULT_KEY\<rparr>]\<rparr>)"
  by (simp add: lookup_onwards_def Let_def split: sum.splits)

lemma Addresses_default_miss:
  assumes "cname_entry answers DEFAULT_KEY (Fqdn fqdn) = None"
    and "a_entry answers DEFAULT_KEY (Fqdn fqdn) = None"
  shows "Addresses e answers DEFAULT_KEY fqdn [] w = Some (Inr ([], False), w)"
  using assms by (simp add: Addresses_no_cname lookup_onwards_nothing)

lemma Addresses_miss:
  assumes "length cnameParents < 10"
    and "cname_entry answers clientIp (Fqdn fqdn) = None"
    and "a_entry answers clientIp (Fqdn fqdn) = None"
    and "cname_entry answers DEFAULT_KEY (Fqdn fqdn) = None"
    and "a_entry answers DEFAULT_KEY (Fqdn fqdn) = None"
    and "clientIp \<noteq> DEFAULT_KEY"
  shows "Addresses e answers clientIp fqdn cnameParents w = Some (Inr ([], False), w)"
  using assms Addresses_default_miss[of answers "Fqdn fqdn" e w]
  by (simp add: Addresses_no_cname lookup_onwards_other_section Fqdn_idem)

section \<open>A CNAME that does not resolve\<close>

text \<open>
  Claim C3. For every client key, name and ancestry chain shorter than 10: if a CNAME
  entry that is not a self-loop matches and the recursive resolution of its target
  fails or returns no records, \<^verbatim>\<open>Addresses\<close> goes on to the A entries of the
  original name under the same client key, and if there is one with an address it
  returns those A records, in some order, with \<open>found = true\<close> and no upstream call of
  its own.
\<close>

theorem cname_failure_falls_through:
  assumes "length cnameParents < 10"
    and "cname_entry answers clientIp (Fqdn fqdn) = Some res"
    and "Fqdn (c_Answer res) \<noteq> Fqdn fqdn"
    and "Addresses e answers clientIp (Fqdn (c_Answer res))
           (cnameParents @ [cname_record e (Fqdn fqdn) res]) w = Some (Inr (children, ok), w1)"
    and "\<not> (ok \<and> children \<noteq> [])"
    and "a_entry answers clientIp (Fqdn fqdn) = Some ra"
  shows "\<exists>records w'. Addresses e answers clientIp fqdn cnameParents w
            = Some (Inr (records, True), w')
          \<and> mset records = mset (a_records e (Fqdn fqdn) ra)
          \<and> upstream_log w' = upstream_log w1"
  using lookup_onwards_hit[OF assms(6), of e cnameParents w1]
  by (simp add: Addresses_cname_unresolved[OF assms(1-5)])

lemma odd_gone:
  "Addresses example_env odd_answers ''10.1.2.2'' ''gone.'' [r] example_world
     = Some (Inr ([], False), example_world)"
  by (rule Addresses_miss)
     (simp_all add: Fqdn_dotted cname_entry_def a_entry_def odd_answers_def DEFAULT_KEY_def)

theorem cname_failure_falls_through_witness:
  "length ([]::RR list) < 10
   \<and> cname_entry odd_answers ''10.1.2.2'' (Fqdn ''both'')
       = Some \<lparr>c_Ttl = None, c_Answer = ''gone.''\<rparr>
   \<and> Fqdn (c_Answer \<lparr>c_Ttl = None, c_Answer = ''gone.''\<rparr>) \<noteq> Fqdn ''both''
   \<and> Addresses example_env odd_answers ''10.1.2.2''
        (Fqdn (c_Answer \<lparr>c_Ttl = None, c_Answer = ''gone.''\<rparr>))
        ([] @ [cname_record example_env (Fqdn ''both'') \<lparr>c_Ttl = None, c_Answer = ''gone.''\<rparr>])
        example_world
       = Some (Inr ([], False), example_world)
   \<and> a_entry odd_answers ''10.1.2.2'' (Fqdn ''both'')
       = Some \<lparr>a_Ttl = None, a_Answer = [''10.1.2.4'', ''not-an-address'']\<rparr>
   \<and> (\<exists>records w'.
         Addresses example_env odd_answers ''10.1.2.2'' ''both'' [] example_world
           = Some (Inr (records, True), w')
         \<and> mset records = mset (a_records example_env (Fqdn ''both'')
               \<lparr>a_Ttl = None, a_Answer = [''10.1.2.4'', ''not-an-address'']\<rparr>)
         \<and> upstream_log w' = upstream_log example_world)"
proof -
  have n: "Fqdn ''both'' = ''both.''"
    by (simp add: Fqdn_def IsFqdn_def)
  have h1: "length ([]::RR list) < 10" by simp
  have h2: "cname_entry odd_answers ''10.1.2.2'' (Fqdn ''both'')
              = Some \<lparr>c_Ttl = None, c_Answer = ''gone.''\<rparr>"
    by (simp add: n cname_entry_def odd_answers_def)
  have h3: "Fqdn (c_Answer \<lparr>c_Ttl = None, c_Answer = ''gone.''\<rparr>) \<noteq> Fqdn ''both''"
    by (simp add: n Fqdn_dotted)
  have h4: "Addresses example_env odd_answers ''10.1.2.2''
        (Fqdn (c_Answer \<lparr>c_Ttl = None, c_Answer = ''gone.''\<rparr>))
        ([] @ [cname_record example_env (Fqdn ''both'') \<lparr>c_Ttl = None, c_Answer = ''gone.''\<rparr>])
        example_world
       = Some (Inr ([], False), example_world)"
    by (simp add: Fqdn_dotted odd_gone)
  have h5: "\<not> (False \<and> ([]::RR list) \<noteq> [])" by simp
  have h6: "a_entry odd_answers ''10.1.2.2'' (Fqdn ''both'')
       = Some \<lparr>a_Ttl = None, a_Answer = [''10.1.2.4'', ''not-an-address'']\<rparr>"
    by (simp add: n a_entry_def odd_answers_def)
  show ?thesis
    using cname_failure_falls_through[OF h1 h2 h3 h4 h5 h6] h1 h2 h3 h4 h6
    by simp
qed

section \<open>Addresses that do not parse\<close>

lemma Matching_A_hit:
  assumes "a_entry answers clientIp fqdn = Some res"
  shows "\<exists>records w'. Matching e answers TypeA clientIp fqdn w = (records, True, w')
          \<and> mset records = mset (a_records e fqdn res)
          \<and> upstream_log w' = upstream_log w"
  using assms by (simp add: Matching_A shuffle_mset shuffle_log)

lemma count_nil_addresses:
  "length (filter (\<lambda>r. r = RR_A \<lparr>Name = fqdn, Rrtype = TypeA, Class = ClassINET, Ttl = ttl\<rparr> None)
             (map (mk_A e fqdn ttl) texts))
     = length (filter (\<lambda>s. ParseIP e s = None) texts)"
  by (induction texts) (auto simp: mk_A_def)

text \<open>
  Claim C10. Configured address strings are never validated: for an A entry with a
  non-empty address list, \<^verbatim>\<open>Matching\<close> returns \<open>found = true\<close> with one record
  per configured string (the records built from the strings, in some order), and as
  many records with a nil address as there are strings that \<^verbatim>\<open>net.ParseIP\<close>
  rejects: none is skipped and none is an error.
\<close>

theorem unparseable_address_kept:
  assumes "answers clientIp = Some client"
    and "A client fqdn = Some res"
    and "a_Answer res \<noteq> []"
  shows "\<exists>records w'. Matching e answers TypeA clientIp fqdn w = (records, True, w')
          \<and> mset records = mset (map (mk_A e fqdn (ttl_or_default e (a_Ttl res))) (a_Answer res))
          \<and> length records = length (a_Answer res)
          \<and> length (filter (\<lambda>r. r = RR_A \<lparr>Name = fqdn, Rrtype = TypeA, Class = ClassINET,
                                    Ttl = ttl_or_default e (a_Ttl res)\<rparr> None) records)
              = length (filter (\<lambda>s. ParseIP e s = None) (a_Answer res))"
proof -
  have "a_entry answers clientIp fqdn = Some res"
    using assms by (simp add: a_entry_def)
  from Matching_A_hit[OF this, of e w]
  obtain records w' where m: "Matching e answers TypeA clientIp fqdn w = (records, True, w')"
    and p: "mset records = mset (a_records e fqdn res)"
    by blast
  let ?ttl = "ttl_or_default e (a_Ttl res)"
  let ?nil = "RR_A \<lparr>Name = fqdn, Rrtype = TypeA, Class = ClassINET, Ttl = ?ttl\<rparr> None"
  have len: "length records = length (a_Answer res)"
    using mset_eq_length[OF p] by (simp add: a_records_def)
  have "length (filter (\<lambda>r. r = ?nil) records)
      = length (filter (\<lambda>r. r = ?nil) (a_records e fqdn res))"
    using p by (metis mset_filter size_mset)
  also have "\<dots> = length (filter (\<lambda>s. ParseIP e s = None) (a_Answer res))"
    unfolding a_records_def by (rule count_nil_addresses)
  finally have cnt: "length (filter (\<lambda>r. r = ?nil) records)
      = length (filter (\<lambda>s. ParseIP e s = None) (a_Answer res))" .
  show ?thesis
    using m p[unfolded a_records_def] len cnt by blast
qed

theorem unparseable_address_kept_witness:
  "odd_answers ''10.1.2.2''
     = Some \<lparr>Recurse = [],
         A = [''mysql.'' \<mapsto> \<lparr>a_Ttl = Some 42, a_Answer = [''10.1.2.3'']\<rparr>,
              ''both.'' \<mapsto> \<lparr>a_Ttl = None, a_Answer = [''10.1.2.4'', ''not-an-address'']\<rparr>,
              ''loop.'' \<mapsto> \<lparr>a_Ttl = None, a_Answer = [''10.1.2.5'']\<rparr>],
         Cname = [''db.'' \<mapsto> \<lparr>c_Ttl = None, c_Answer = ''mysql.''\<rparr>,
                  ''both.'' \<mapsto> \<lparr>c_Ttl = None, c_Answer = ''gone.''\<rparr>,
                  ''loop.'' \<mapsto> \<lparr>c_Ttl = None, c_Answer = ''loop''\<rparr>]\<rparr>
   \<and> ParseIP example_env ''not-an-address'' = None
   \<and> (\<exists>records w'.
         Matching example_env odd_answers TypeA ''10.1.2.2'' ''both.'' example_world
           = (records, True, w')
         \<and> length records = 2
         \<and> length (filter (\<lambda>r. r = RR_A \<lparr>Name = ''both.'', Rrtype = TypeA, Class = ClassINET,
                                   Ttl = 600\<rparr> None) records) = 1)"
proof -
  let ?client = "\<lparr>Recurse = [],
         A = [''mysql.'' \<mapsto> \<lparr>a_Ttl = Some 42, a_Answer = [''10.1.2.3'']\<rparr>,
              ''both.'' \<mapsto> \<lparr>a_Ttl = None, a_Answer = [''10.1.2.4'', ''not-an-address'']\<rparr>,
              ''loop.'' \<mapsto> \<lparr>a_Ttl = None, a_Answer = [''10.1.2.5'']\<rparr>],
         Cname = [''db.'' \<mapsto> \<lparr>c_Ttl = None, c_Answer = ''mysql.''\<rparr>,
                  ''both.'' \<mapsto> \<lparr>c_Ttl = None, c_Answer = ''gone.''\<rparr>,
                  ''loop.'' \<mapsto> \<lparr>c_Ttl = None, c_Answer = ''loop''\<rparr>]\<rparr>"
  let ?res = "\<lparr>a_Ttl = None, a_Answer = [''10.1.2.4'', ''not-an-address'']\<rparr>"
  have h1: "odd_answers ''10.1.2.2'' = Some ?client"
    by (simp add: odd_answers_def)
  have h2: "A ?client ''both.'' = Some ?res"
    by simp
  have h3: "a_Answer ?res \<noteq> []"
    by simp
  have p: "ParseIP example_env ''not-an-address'' = None"
    "ParseIP example_env ''10.1.2.4'' \<noteq> None"
    by (simp_all add: example_env_def table_ParseIP_def)
  have t: "ttl_or_default example_env None = 600"
    by (simp add: ttl_or_default_def example_env_def)
  show ?thesis
    using unparseable_address_kept[of odd_answers "''10.1.2.2''" ?client "''both.''" ?res
        example_env example_world] h1 h2 h3 p t
    by auto
qed

section \<open>The shuffle and where it is applied\<close>








section \<open>Loading the answers file\<close>

text \<open>
  Claim C8, as the code has it. Loading the answers file from a path that does not
  exist is not an error: the result is the empty store and a nil error. Any other
  failure to read the file returns that error, with a nil store. A file that was read
  is handed to the JSON decoder, and the result is the store as the decoder left it
  together with the error of the decoder: after a rejected document the store is not
  cleared, and it holds whatever the decoder had stored. So the error is not nil exactly
  when the read fails for another reason than a missing file, or the decoder rejects
  the document.
\<close>

theorem ReadAnswersFile_errors:
  "(ReadFile missing = Inl err \<and> IsNotExist err
      \<longrightarrow> ReadAnswersFile ReadFile Unmarshal missing = (Map.empty, None))
   \<and> (ReadFile denied = Inl err' \<and> \<not> IsNotExist err'
      \<longrightarrow> ReadAnswersFile ReadFile Unmarshal denied = (Map.empty, Some err'))
   \<and> (ReadFile present = Inr data
      \<longrightarrow> ReadAnswersFile ReadFile Unmarshal present = Unmarshal data Map.empty)
   \<and> (snd (ReadAnswersFile ReadFile Unmarshal path) \<noteq> None
      \<longleftrightarrow> (\<exists>e. ReadFile path = Inl e \<and> \<not> IsNotExist e)
        \<or> (\<exists>d. ReadFile path = Inr d \<and> snd (Unmarshal d Map.empty) \<noteq> None))"
  by (cases "ReadFile path") (auto simp: ReadAnswersFile_def)

theorem ReadAnswersFile_errors_witness:
  "example_ReadFile ''nothing.json'' = Inl NotExist \<and> IsNotExist NotExist
   \<and> ReadAnswersFile example_ReadFile example_Unmarshal ''nothing.json'' = (Map.empty, None)
   \<and> example_ReadFile ''/root/secret.json'' = Inl (OtherIO ''permission denied'')
   \<and> \<not> IsNotExist (OtherIO ''permission denied'')
   \<and> ReadAnswersFile example_ReadFile example_Unmarshal ''/root/secret.json''
       = (Map.empty, Some (OtherIO ''permission denied''))
   \<and> example_ReadFile ''broken.json'' = Inr [123]
   \<and> ReadAnswersFile example_ReadFile example_Unmarshal ''broken.json''
       = (Map.empty, Some (Syntax ''unexpected end of JSON input''))
   \<and> snd (ReadAnswersFile example_ReadFile example_Unmarshal ''answers.json'') = None"
proof -
  have h: "example_ReadFile ''nothing.json'' = Inl NotExist" "IsNotExist NotExist"
    "example_ReadFile ''/root/secret.json'' = Inl (OtherIO ''permission denied'')"
    "\<not> IsNotExist (OtherIO ''permission denied'')"
    "example_ReadFile ''broken.json'' = Inr [123]"
    "example_ReadFile ''answers.json'' = Inr [123, 125]"
    by (simp_all add: example_ReadFile_def IsNotExist_def)
  have u: "example_Unmarshal [123] Map.empty = (Map.empty, Some (Syntax ''unexpected end of JSON input''))"
    "snd (example_Unmarshal [123, 125] Map.empty) = None"
    by (simp_all add: example_Unmarshal_def typed_document_def bytes_of_def)
  show ?thesis
    using ReadAnswersFile_errors[where ReadFile = example_ReadFile and Unmarshal = example_Unmarshal
        and missing = "''nothing.json''" and err = NotExist
        and denied = "''/root/secret.json''" and err' = "OtherIO ''permission denied''"
        and present = "''broken.json''" and data = "[123]" and path = "''answers.json''"]
      h u
    by simp
qed

text \<open>
  The claim as it was stated, that a document which does not parse gives an error and
  no usable store, fails on the document of \<open>typed.json\<close>: the load returns the error
  of the decoder and a store with a default section, from which \<^verbatim>\<open>RecurseHosts\<close>
  reads resolvers.
\<close>

theorem ReadAnswersFile_counterexample:
  "example_ReadFile ''typed.json'' = Inr typed_document
   \<and> snd (ReadAnswersFile example_ReadFile example_Unmarshal ''typed.json'')
       = Some (TypeMismatch
           ''json: cannot unmarshal number into Go value of type map[string]main.RecordA'')
   \<and> fst (ReadAnswersFile example_ReadFile example_Unmarshal ''typed.json'') DEFAULT_KEY
       = Some \<lparr>Recurse = [''8.8.8.8''], A = Map.empty, Cname = Map.empty\<rparr>
   \<and> fst (ReadAnswersFile example_ReadFile example_Unmarshal ''typed.json'') \<noteq> Map.empty
   \<and> RecurseHosts (fst (ReadAnswersFile example_ReadFile example_Unmarshal ''typed.json''))
         DEFAULT_KEY = [''8.8.8.8'', ''8.8.8.8'']"
proof -
  have r: "example_ReadFile ''typed.json'' = Inr typed_document"
    by (simp add: example_ReadFile_def)
  have d: "typed_document \<noteq> [123, 125]"
    by (simp add: typed_document_def bytes_of_def)
  have l: "ReadAnswersFile example_ReadFile example_Unmarshal ''typed.json''
      = ([''default'' \<mapsto> \<lparr>Recurse = [''8.8.8.8''], A = Map.empty, Cname = Map.empty\<rparr>],
         Some (TypeMismatch
           ''json: cannot unmarshal number into Go value of type map[string]main.RecordA''))"
    using d by (simp add: ReadAnswersFile_def r example_Unmarshal_def)
  have n: "[''default'' \<mapsto> \<lparr>Recurse = [''8.8.8.8''], A = Map.empty, Cname = Map.empty\<rparr>]
      \<noteq> (Map.empty :: Answers)"
    by simp
  show ?thesis
    using r n
    by (simp add: l DEFAULT_KEY_def RecurseHosts_def recurseHostsFor_def)
qed

section \<open>When the upstream delegate is called\<close>

lemma lookup_onwards_log:
  assumes "a_entry answers DEFAULT_KEY fqdn \<noteq> None \<or> cnameParents = []"
  shows "\<exists>records ok w'. lookup_onwards e answers DEFAULT_KEY fqdn cnameParents w
            = Some (Inr (records, ok), w')
          \<and> upstream_log w' = upstream_log w"
proof (cases "a_entry answers DEFAULT_KEY fqdn")
  case None
  then show ?thesis using assms by (auto simp: lookup_onwards_def)
next
  case (Some ra)
  from lookup_onwards_hit[OF this, of e cnameParents w] show ?thesis by blast
qed

lemma Addresses_no_cname_log:
  assumes "cname_entry answers clientIp (Fqdn fqdn) = None"
    and "cname_entry answers DEFAULT_KEY (Fqdn fqdn) = None"
  shows "\<exists>records ok w'. Addresses e answers clientIp fqdn [] w = Some (Inr (records, ok), w')
          \<and> upstream_log w' = upstream_log w"
proof -
  have dflt: "\<exists>records ok w'. Addresses e answers DEFAULT_KEY (Fqdn fqdn) [] w
                = Some (Inr (records, ok), w') \<and> upstream_log w' = upstream_log w"
    using lookup_onwards_log[of answers "Fqdn fqdn" "[]" e w] assms(2)
    by (simp add: Addresses_no_cname Fqdn_idem)
  show ?thesis
  proof (cases "clientIp = DEFAULT_KEY")
    case True
    then show ?thesis using dflt by (simp add: Addresses_Fqdn)
  next
    case False
    show ?thesis
    proof (cases "a_entry answers clientIp (Fqdn fqdn)")
      case None
      then show ?thesis using dflt False assms(1)
        by (simp add: Addresses_no_cname lookup_onwards_other_section)
    next
      case (Some ra)
      from lookup_onwards_hit[OF this, of e "[]" w] show ?thesis
        using assms(1) by (auto simp: Addresses_no_cname)
    qed
  qed
qed

lemma RecurseHosts_default:
  "answers DEFAULT_KEY = Some d \<Longrightarrow> RecurseHosts answers DEFAULT_KEY = Recurse d @ Recurse d"
  by (simp add: RecurseHosts_def recurseHostsFor_def Let_def)

lemma RecurseHosts_append:
  "RecurseHosts answers clientIp
     = recurseHostsFor answers clientIp @ recurseHostsFor answers DEFAULT_KEY"
  by (simp add: RecurseHosts_def Let_def)

lemma cname_to_upstream:
  assumes "cname_entry answers DEFAULT_KEY (Fqdn fqdn) = Some res"
    and "Fqdn (c_Answer res) \<noteq> Fqdn fqdn"
    and "cname_entry answers DEFAULT_KEY (Fqdn (c_Answer res)) = None"
    and "a_entry answers DEFAULT_KEY (Fqdn (c_Answer res)) = None"
  shows "\<exists>records ok w'. Addresses e answers DEFAULT_KEY fqdn [] w = Some (Inr (records, ok), w')
          \<and> upstream_log w' = upstream_log w @
               [\<lparr>uc_client = DEFAULT_KEY, uc_depth = 1, uc_fqdn = Fqdn (c_Answer res),
                 uc_hosts = RecurseHosts answers DEFAULT_KEY\<rparr>]"
proof -
  let ?cn = "cname_record e (Fqdn fqdn) res"
  let ?t = "Fqdn (c_Answer res)"
  let ?call = "\<lparr>uc_client = DEFAULT_KEY, uc_depth = 1, uc_fqdn = ?t,
                 uc_hosts = RecurseHosts answers DEFAULT_KEY\<rparr>"
  let ?w1 = "w\<lparr>upstream_log := upstream_log w @ [?call]\<rparr>"
  have "\<exists>children ok.
      Addresses e answers DEFAULT_KEY ?t ([] @ [?cn]) w = Some (Inr (children, ok), ?w1)"
    using assms(3,4)
    by (cases "ResolveTryAll e (upstream_log w) ?t (RecurseHosts answers DEFAULT_KEY)")
       (auto simp: Addresses_no_cname lookup_onwards_upstream Fqdn_idem)
  then obtain children ok where
    rec: "Addresses e answers DEFAULT_KEY ?t ([] @ [?cn]) w = Some (Inr (children, ok), ?w1)"
    by blast
  show ?thesis
  proof (cases "ok \<and> children \<noteq> []")
    case True
    then show ?thesis
      using Addresses_cname_resolved[OF _ assms(1,2), of "[]" e w children ?w1] rec
      by auto
  next
    case False
    have "Addresses e answers DEFAULT_KEY fqdn [] w
            = lookup_onwards e answers DEFAULT_KEY (Fqdn fqdn) [] ?w1"
      using Addresses_cname_unresolved[OF _ assms(1,2) rec False] by simp
    then show ?thesis
      using lookup_onwards_log[of answers "Fqdn fqdn" "[]" e ?w1] by auto
  qed
qed

text \<open>
  Claim C6. The upstream delegate is only called under the default key and with a
  non-empty ancestry chain: every resolution returns, and each call it adds to the log
  of upstream calls was made by an invocation whose client key is the default key and
  whose chain holds at least one CNAME. In particular a resolution started with an
  empty chain for a name that has no CNAME entry in the section of the client nor in
  the default section makes no upstream call, whatever recurse lists are configured.
\<close>

theorem upstream_only_for_cname_targets:
  "(\<exists>records ok w'. Addresses e answers clientIp fqdn cnameParents w = Some (Inr (records, ok), w')
      \<and> (\<exists>new. upstream_log w' = upstream_log w @ new
            \<and> list_all (\<lambda>u. uc_client u = DEFAULT_KEY \<and> 0 < uc_depth u) new))
   \<and> (cname_entry answers clientIp' (Fqdn fqdn') = None
        \<and> cname_entry answers DEFAULT_KEY (Fqdn fqdn') = None
      \<longrightarrow> (\<exists>records ok w'. Addresses e answers clientIp' fqdn' [] w = Some (Inr (records, ok), w')
            \<and> upstream_log w' = upstream_log w))"
  using Addresses_returns[of w e answers clientIp fqdn cnameParents]
    Addresses_no_cname_log[of answers clientIp' fqdn' e w]
  by (simp add: returns_def log_extends_def)

lemma Fqdn_website: "Fqdn ''website.'' = ''website.''" "Fqdn ''www.'' = ''www.''"
  by (simp_all add: Fqdn_dotted)

lemma readme_default:
  "readme_answers DEFAULT_KEY = Some
        \<lparr>Recurse = [''8.8.8.8''],
         A = [''foo.'' \<mapsto> \<lparr>a_Ttl = None, a_Answer = [''1.2.3.4'']\<rparr>],
         Cname = [''website.'' \<mapsto> \<lparr>c_Ttl = None, c_Answer = ''www.''\<rparr>,
                  ''external.'' \<mapsto> \<lparr>c_Ttl = None, c_Answer = ''rancher.com.''\<rparr>]\<rparr>"
  by (simp add: readme_answers_def DEFAULT_KEY_def)

lemma readme_website:
  "cname_entry readme_answers DEFAULT_KEY ''website.'' = Some \<lparr>c_Ttl = None, c_Answer = ''www.''\<rparr>"
  "cname_entry readme_answers DEFAULT_KEY ''www.'' = None"
  "a_entry readme_answers DEFAULT_KEY ''www.'' = None"
  "recurseHostsFor readme_answers DEFAULT_KEY = [''8.8.8.8'']"
  by (simp_all add: cname_entry_def a_entry_def recurseHostsFor_def readme_default)

lemma readme_website_log:
  "\<exists>records ok w'.
     Addresses example_env readme_answers DEFAULT_KEY ''website.'' [] example_world
       = Some (Inr (records, ok), w')
     \<and> upstream_log w' =
         [\<lparr>uc_client = DEFAULT_KEY, uc_depth = 1, uc_fqdn = ''www.'',
           uc_hosts = [''8.8.8.8'', ''8.8.8.8'']\<rparr>]"
  using cname_to_upstream[of readme_answers "''website.''" "\<lparr>c_Ttl = None, c_Answer = ''www.''\<rparr>"
      example_env example_world]
  by (simp add: Fqdn_website readme_website RecurseHosts_append example_world_def)

theorem upstream_only_for_cname_targets_witness:
  "cname_entry readme_answers ''10.1.2.2'' (Fqdn ''mysql.'') = None
   \<and> cname_entry readme_answers DEFAULT_KEY (Fqdn ''mysql.'') = None
   \<and> RecurseHosts readme_answers ''10.1.2.2'' = [''8.8.4.4:53'', ''8.8.8.8'', ''8.8.8.8'']
   \<and> (\<exists>records ok w'.
         Addresses example_env readme_answers ''10.1.2.2'' ''mysql.'' [] example_world
           = Some (Inr (records, ok), w')
         \<and> upstream_log w' = upstream_log example_world)
   \<and> (\<exists>records ok w'.
         Addresses example_env readme_answers DEFAULT_KEY ''website.'' [] example_world
           = Some (Inr (records, ok), w')
         \<and> (\<exists>new. upstream_log w' = upstream_log example_world @ new
               \<and> list_all (\<lambda>u. uc_client u = DEFAULT_KEY \<and> 0 < uc_depth u) new))
   \<and> map uc_depth (upstream_log (snd (the
         (Addresses example_env readme_answers DEFAULT_KEY ''website.'' [] example_world)))) = [1]"
proof -
  have n: "Fqdn ''mysql.'' = ''mysql.''"
    by (simp add: Fqdn_dotted)
  have h: "cname_entry readme_answers ''10.1.2.2'' (Fqdn ''mysql.'') = None"
    "cname_entry readme_answers DEFAULT_KEY (Fqdn ''mysql.'') = None"
    by (simp_all add: n cname_entry_def readme_answers_def DEFAULT_KEY_def)
  have r: "RecurseHosts readme_answers ''10.1.2.2'' = [''8.8.4.4:53'', ''8.8.8.8'', ''8.8.8.8'']"
    by (simp add: RecurseHosts_append recurseHostsFor_def readme_answers_def DEFAULT_KEY_def)
  show ?thesis
    using upstream_only_for_cname_targets[where e = example_env and answers = readme_answers
        and clientIp = DEFAULT_KEY and fqdn = "''website.''" and cnameParents = "[]"
        and w = example_world and clientIp' = "''10.1.2.2''" and fqdn' = "''mysql.''"]
      h r readme_website_log
    by (auto simp: example_world_def)
qed

section \<open>The resolver list of a CNAME target\<close>

text \<open>
  Claim C5, as the code has it. Given a store whose default section maps the CNAME
  \<open>website.\<close> to \<open>www.\<close>, has no CNAME and no A entry for \<open>www.\<close>, and has the recurse
  list \<open>[8.8.8.8]\<close>: resolving \<open>website.\<close> for the default key, or for a client with no
  section, calls the upstream delegate exactly once, for \<open>www.\<close> under the default key
  with one CNAME parent, and with the address list \<open>[8.8.8.8, 8.8.8.8]\<close>. The list is
  \<^verbatim>\<open>RecurseHosts\<close> of the default key: the recurse list of the key followed by the
  recurse list of the default section, which here are the same list.
\<close>

theorem website_goes_upstream:
  assumes "answers DEFAULT_KEY = Some d"
    and "Cname d ''website.'' = Some res"
    and "c_Answer res = ''www.''"
    and "Cname d ''www.'' = None"
    and "A d ''www.'' = None"
    and "Recurse d = [''8.8.8.8'']"
    and "clientIp = DEFAULT_KEY \<or> answers clientIp = None"
  shows "(\<exists>records ok w'.
            Addresses e answers clientIp ''website.'' [] w = Some (Inr (records, ok), w')
            \<and> upstream_log w' = upstream_log w @
                 [\<lparr>uc_client = DEFAULT_KEY, uc_depth = 1, uc_fqdn = ''www.'',
                   uc_hosts = [''8.8.8.8'', ''8.8.8.8'']\<rparr>])
         \<and> RecurseHosts answers anyClient
             = recurseHostsFor answers anyClient @ recurseHostsFor answers DEFAULT_KEY
         \<and> recurseHostsFor answers DEFAULT_KEY = [''8.8.8.8'']"
proof -
  have c: "Addresses e answers clientIp ''website.'' [] w
             = Addresses e answers DEFAULT_KEY ''website.'' [] w"
    using assms(7) Addresses_unknown_client[of answers clientIp e "''website.''" w] by auto
  have h: "RecurseHosts answers DEFAULT_KEY = [''8.8.8.8'', ''8.8.8.8'']"
    using assms(1,6) by (simp add: RecurseHosts_default)
  have "cname_entry answers DEFAULT_KEY (Fqdn ''website.'') = Some res"
    "Fqdn (c_Answer res) \<noteq> Fqdn ''website.''"
    "cname_entry answers DEFAULT_KEY (Fqdn (c_Answer res)) = None"
    "a_entry answers DEFAULT_KEY (Fqdn (c_Answer res)) = None"
    using assms(1-5) by (simp_all add: Fqdn_website cname_entry_def a_entry_def)
  from cname_to_upstream[OF this, of e w] show ?thesis
    using assms(1,3,6) c h
    by (simp add: Fqdn_website RecurseHosts_append recurseHostsFor_def)
qed

text \<open>
  The configuration of the README, resolved for the default key: the one upstream call
  carries \<open>8.8.8.8\<close> twice, not once.
\<close>

theorem website_upstream_counterexample:
  "cname_entry readme_answers DEFAULT_KEY ''website.'' = Some \<lparr>c_Ttl = None, c_Answer = ''www.''\<rparr>
   \<and> a_entry readme_answers DEFAULT_KEY ''www.'' = None
   \<and> recurseHostsFor readme_answers DEFAULT_KEY = [''8.8.8.8'']
   \<and> map uc_hosts (upstream_log (snd (the
         (Addresses example_env readme_answers DEFAULT_KEY ''website.'' [] example_world))))
       = [[''8.8.8.8'', ''8.8.8.8'']]
   \<and> map uc_hosts (upstream_log (snd (the
         (Addresses example_env readme_answers DEFAULT_KEY ''website.'' [] example_world))))
       \<noteq> [[''8.8.8.8'']]"
  using readme_website_log by (auto simp: readme_website)

theorem website_goes_upstream_witness:
  "readme_answers DEFAULT_KEY = Some
        \<lparr>Recurse = [''8.8.8.8''],
         A = [''foo.'' \<mapsto> \<lparr>a_Ttl = None, a_Answer = [''1.2.3.4'']\<rparr>],
         Cname = [''website.'' \<mapsto> \<lparr>c_Ttl = None, c_Answer = ''www.''\<rparr>,
                  ''external.'' \<mapsto> \<lparr>c_Ttl = None, c_Answer = ''rancher.com.''\<rparr>]\<rparr>
   \<and> readme_answers ''9.9.9.9'' = None
   \<and> (\<exists>records ok w'.
         Addresses example_env readme_answers ''9.9.9.9'' ''website.'' [] example_world
           = Some (Inr (records, ok), w')
         \<and> upstream_log w' = upstream_log example_world @
              [\<lparr>uc_client = DEFAULT_KEY, uc_depth = 1, uc_fqdn = ''www.'',
                uc_hosts = [''8.8.8.8'', ''8.8.8.8'']\<rparr>])"
proof -
  let ?d = "\<lparr>Recurse = [''8.8.8.8''],
         A = [''foo.'' \<mapsto> \<lparr>a_Ttl = None, a_Answer = [''1.2.3.4'']\<rparr>],
         Cname = [''website.'' \<mapsto> \<lparr>c_Ttl = None, c_Answer = ''www.''\<rparr>,
                  ''external.'' \<mapsto> \<lparr>c_Ttl = None, c_Answer = ''rancher.com.''\<rparr>]\<rparr>"
  have u: "readme_answers ''9.9.9.9'' = None"
    by (simp add: readme_answers_def)
  show ?thesis
    using website_goes_upstream[where answers = readme_answers and d = ?d
        and res = "\<lparr>c_Ttl = None, c_Answer = ''www.''\<rparr>" and clientIp = "''9.9.9.9''"
        and e = example_env and w = example_world]
      readme_default u
    by simp
qed

section \<open>CNAME chains and the depth guard\<close>

lemma cname_chain_Cons:
  "cname_chain answers c (k # k' # ks) \<Longrightarrow>
   \<exists>res. cname_entry answers c k = Some res \<and> Fqdn (c_Answer res) = k'
     \<and> cname_chain answers c (k' # ks)"
  by (cases "cname_entry answers c k") simp_all

lemma self_loop_chain:
  "cname_chain answers c (k # ks) \<Longrightarrow> cname_entry answers c k = Some res \<Longrightarrow>
   Fqdn (c_Answer res) = k \<Longrightarrow> last (k # ks) = k"
proof (induction ks)
  case Nil
  then show ?case by simp
next
  case (Cons k' rest)
  from cname_chain_Cons[OF Cons.prems(1)] Cons.prems(2,3)
  have "k' = k" "cname_chain answers c (k # rest)"
    by auto
  then show ?case using Cons.IH Cons.prems(2,3) by simp
qed

lemma a_entry_records: "a_entry answers c k = Some ra \<Longrightarrow> a_records e k ra \<noteq> []"
  by (auto simp: a_entry_def a_records_def split: option.splits if_splits)

lemma lookup_onwards_found:
  assumes "a_entry answers c k = Some ra"
  shows "\<exists>records w'. lookup_onwards e answers c k ps w = Some (Inr (records, True), w')
          \<and> records \<noteq> []"
proof -
  from lookup_onwards_hit[OF assms, of e ps w]
  obtain records w' where r: "lookup_onwards e answers c k ps w = Some (Inr (records, True), w')"
    and m: "mset records = mset (a_records e k ra)"
    by blast
  have "records \<noteq> []"
    using m a_entry_records[OF assms, of e] by auto
  then show ?thesis using r by blast
qed

lemma cname_chain_resolves:
  "cname_chain answers c ks \<Longrightarrow> ks \<noteq> [] \<Longrightarrow> length ps + length ks \<le> 10 \<Longrightarrow>
   Fqdn q = hd ks \<Longrightarrow> a_entry answers c (last ks) = Some ra \<Longrightarrow>
   map_option (\<lambda>res. Fqdn (c_Answer res)) (cname_entry answers c (last ks)) \<noteq> Some (last ks) \<Longrightarrow>
   \<exists>records w'. Addresses e answers c q ps w = Some (Inr (records, True), w') \<and> records \<noteq> []"
proof (induction ks arbitrary: ps q w)
  case Nil
  then show ?case by simp
next
  case (Cons k ks)
  have q: "Fqdn q = k" using Cons.prems(4) by simp
  have short: "length ps < 10" using Cons.prems(3) by simp
  show ?case
  proof (cases ks)
    case Nil
    then have ra: "a_entry answers c (Fqdn q) = Some ra"
      and noloop: "map_option (\<lambda>res. Fqdn (c_Answer res)) (cname_entry answers c (Fqdn q))
                     \<noteq> Some (Fqdn q)"
      using Cons.prems(5,6) q by simp_all
    show ?thesis
    proof (cases "cname_entry answers c (Fqdn q)")
      case None
      then show ?thesis
        using lookup_onwards_found[OF ra, of e ps w] short by (simp add: Addresses_no_cname)
    next
      case (Some res)
      then have ne: "Fqdn (c_Answer res) \<noteq> Fqdn q" using noloop by simp
      let ?ps = "ps @ [cname_record e (Fqdn q) res]"
      from Addresses_returns[of w e answers c "Fqdn (c_Answer res)" ?ps]
      obtain children ok w1 where
        rec: "Addresses e answers c (Fqdn (c_Answer res)) ?ps w = Some (Inr (children, ok), w1)"
        by (auto simp: returns_def)
      show ?thesis
      proof (cases "ok \<and> children \<noteq> []")
        case True
        then show ?thesis
          using Addresses_cname_resolved[OF short Some ne, of e w children w1] rec by simp
      next
        case False
        then show ?thesis
          using Addresses_cname_unresolved[OF short Some ne rec]
            lookup_onwards_found[OF ra, of e ps w1]
          by simp
      qed
    qed
  next
    case (Cons k' rest)
    from cname_chain_Cons[OF Cons.prems(1)[unfolded Cons]]
    obtain res where res: "cname_entry answers c k = Some res" "Fqdn (c_Answer res) = k'"
      and chain: "cname_chain answers c (k' # rest)"
      by blast
    have "k' \<noteq> k"
    proof
      assume "k' = k"
      then have "last (k # ks) = k"
        using self_loop_chain[OF Cons.prems(1) res(1)] res(2) by simp
      then show False using Cons.prems(6) res \<open>k' = k\<close> by simp
    qed
    then have ne: "Fqdn (c_Answer res) \<noteq> Fqdn q" using res(2) q by simp
    have res': "cname_entry answers c (Fqdn q) = Some res" using res(1) q by simp
    let ?ps = "ps @ [cname_record e (Fqdn q) res]"
    have "\<exists>records w'. Addresses e answers c (Fqdn (c_Answer res)) ?ps w
            = Some (Inr (records, True), w') \<and> records \<noteq> []"
    proof (rule Cons.IH)
      show "cname_chain answers c ks" using chain Cons by simp
      show "ks \<noteq> []" using Cons by simp
      show "length ?ps + length ks \<le> 10" using Cons.prems(3) by simp
      show "Fqdn (Fqdn (c_Answer res)) = hd ks"
        using res(2) Cons Fqdn_idem[of "c_Answer res"] by simp
      show "a_entry answers c (last ks) = Some ra" using Cons.prems(5) Cons by simp
      show "map_option (\<lambda>res. Fqdn (c_Answer res)) (cname_entry answers c (last ks))
              \<noteq> Some (last ks)"
        using Cons.prems(6) Cons by simp
    qed
    then obtain children w1 where
      rec: "Addresses e answers c (Fqdn (c_Answer res)) ?ps w = Some (Inr (children, True), w1)"
      and "children \<noteq> []"
      by blast
    then show ?thesis
      using Addresses_cname_resolved[OF short res' ne rec] by simp
  qed
qed

lemma cname_chain_fails:
  assumes up: "RecurseHosts answers DEFAULT_KEY = []"
    "\<And>log k. ResolveTryAll e log k [] = Inl UpstreamFailure"
  shows "cname_chain answers c ks \<Longrightarrow> ks \<noteq> [] \<Longrightarrow> length ps + length ks = 11 \<Longrightarrow>
   Fqdn q = hd ks \<Longrightarrow>
   list_all (\<lambda>k. a_entry answers c k = None) (butlast ks) \<Longrightarrow>
   c = DEFAULT_KEY \<or>
     list_all (\<lambda>k. cname_entry answers DEFAULT_KEY k = None \<and> a_entry answers DEFAULT_KEY k = None)
       (butlast ks) \<Longrightarrow>
   \<exists>w'. Addresses e answers c q ps w = Some (Inr ([], False), w')"
proof (induction ks arbitrary: ps q w)
  case Nil
  then show ?case by simp
next
  case (Cons k ks)
  have q: "Fqdn q = k" using Cons.prems(4) by simp
  then have k: "Fqdn k = k" using Fqdn_idem[of q] by simp
  show ?case
  proof (cases ks)
    case Nil
    then have "10 \<le> length ps" using Cons.prems(3) by simp
    then show ?thesis by (simp add: Addresses_deep)
  next
    case (Cons k' rest)
    have short: "length ps < 10" using Cons.prems(3) Cons by simp
    from cname_chain_Cons[OF Cons.prems(1)[unfolded Cons]]
    obtain res where res: "cname_entry answers c k = Some res" "Fqdn (c_Answer res) = k'"
      and chain: "cname_chain answers c (k' # rest)"
      by blast
    have res': "cname_entry answers c (Fqdn q) = Some res" using res(1) q by simp
    have no_a: "a_entry answers c k = None"
      using Cons.prems(5) Cons by simp
    have other: "c = DEFAULT_KEY \<or>
      (cname_entry answers DEFAULT_KEY k = None \<and> a_entry answers DEFAULT_KEY k = None)"
      using Cons.prems(6) Cons by auto
    have tail: "\<exists>w'. lookup_onwards e answers c k ps w1 = Some (Inr ([], False), w')" for w1
    proof (cases "c = DEFAULT_KEY")
      case True
      show ?thesis
      proof (cases "ps = []")
        case True
        then show ?thesis using no_a \<open>c = DEFAULT_KEY\<close> by (simp add: lookup_onwards_nothing)
      next
        case False
        then show ?thesis using no_a \<open>c = DEFAULT_KEY\<close> up
          by (simp add: lookup_onwards_upstream)
      qed
    next
      case False
      then have "Addresses e answers DEFAULT_KEY k [] w1 = Some (Inr ([], False), w1)"
        using other k by (simp add: Addresses_default_miss)
      then show ?thesis using False no_a by (simp add: lookup_onwards_other_section)
    qed
    show ?thesis
    proof (cases "Fqdn (c_Answer res) = Fqdn q")
      case True
      then show ?thesis using res' by (simp add: Addresses_self_loop)
    next
      case False
      let ?ps = "ps @ [cname_record e (Fqdn q) res]"
      have "\<exists>w'. Addresses e answers c (Fqdn (c_Answer res)) ?ps w = Some (Inr ([], False), w')"
      proof (rule Cons.IH)
        show "cname_chain answers c ks" using chain Cons by simp
        show "ks \<noteq> []" using Cons by simp
        show "length ?ps + length ks = 11" using Cons.prems(3) by simp
        show "Fqdn (Fqdn (c_Answer res)) = hd ks"
        using res(2) Cons Fqdn_idem[of "c_Answer res"] by simp
        show "list_all (\<lambda>k. a_entry answers c k = None) (butlast ks)"
          using Cons.prems(5) Cons by simp
        show "c = DEFAULT_KEY \<or>
          list_all (\<lambda>k. cname_entry answers DEFAULT_KEY k = None
                       \<and> a_entry answers DEFAULT_KEY k = None) (butlast ks)"
          using Cons.prems(6) Cons by auto
      qed
      then obtain w1 where
        rec: "Addresses e answers c (Fqdn (c_Answer res)) ?ps w = Some (Inr ([], False), w1)"
        by blast
      have "Addresses e answers c q ps w = lookup_onwards e answers c (Fqdn q) ps w1"
        using Addresses_cname_unresolved[OF short res' False rec] by simp
      then show ?thesis using tail[of w1] q by simp
    qed
  qed
qed

text \<open>
  Claim C1. For every client key: an invocation with 10 or more CNAME records already
  traversed fails at once. A chain of 10 CNAME hops in the section of the client
  resolves to \<open>(nil, false)\<close> when the names of the chain have no A entry there, the
  default section (if it is another section) has no entry for them, and no upstream
  resolver is configured, given that the delegate fails when it is handed no resolver.
  A chain of 9 CNAME hops whose final name has an A entry with an address in the same
  section, and is not its own CNAME, resolves with \<open>found = true\<close>.
\<close>

theorem depth_guard:
  "(10 \<le> length cnameParents
      \<longrightarrow> Addresses e answers clientIp fqdn cnameParents w = Some (Inr ([], False), w))
   \<and> (cname_chain answers long_client long_chain \<and> length long_chain = 11
        \<and> Fqdn long_name = hd long_chain
        \<and> list_all (\<lambda>k. a_entry answers long_client k = None) (butlast long_chain)
        \<and> (long_client = DEFAULT_KEY \<or>
             list_all (\<lambda>k. cname_entry answers DEFAULT_KEY k = None
                          \<and> a_entry answers DEFAULT_KEY k = None) (butlast long_chain))
        \<and> RecurseHosts answers DEFAULT_KEY = []
        \<and> (\<forall>log k. ResolveTryAll e log k [] = Inl UpstreamFailure)
      \<longrightarrow> (\<exists>w'. Addresses e answers long_client long_name [] w = Some (Inr ([], False), w')))
   \<and> (cname_chain answers short_client short_chain \<and> length short_chain = 10
        \<and> Fqdn short_name = hd short_chain
        \<and> a_entry answers short_client (last short_chain) \<noteq> None
        \<and> map_option (\<lambda>res. Fqdn (c_Answer res))
              (cname_entry answers short_client (last short_chain)) \<noteq> Some (last short_chain)
      \<longrightarrow> (\<exists>records w'. Addresses e answers short_client short_name [] w
                          = Some (Inr (records, True), w')
             \<and> records \<noteq> []))"
proof (intro conjI impI)
  assume "10 \<le> length cnameParents"
  then show "Addresses e answers clientIp fqdn cnameParents w = Some (Inr ([], False), w)"
    by (rule Addresses_deep)
next
  assume h: "cname_chain answers long_client long_chain \<and> length long_chain = 11
        \<and> Fqdn long_name = hd long_chain
        \<and> list_all (\<lambda>k. a_entry answers long_client k = None) (butlast long_chain)
        \<and> (long_client = DEFAULT_KEY \<or>
             list_all (\<lambda>k. cname_entry answers DEFAULT_KEY k = None
                          \<and> a_entry answers DEFAULT_KEY k = None) (butlast long_chain))
        \<and> RecurseHosts answers DEFAULT_KEY = []
        \<and> (\<forall>log k. ResolveTryAll e log k [] = Inl UpstreamFailure)"
  then have "long_chain \<noteq> []" "length [] + length long_chain = 11"
    by auto
  then show "\<exists>w'. Addresses e answers long_client long_name [] w = Some (Inr ([], False), w')"
    using h cname_chain_fails[of answers e long_client long_chain "[]" long_name w]
    by blast
next
  assume h: "cname_chain answers short_client short_chain \<and> length short_chain = 10
        \<and> Fqdn short_name = hd short_chain
        \<and> a_entry answers short_client (last short_chain) \<noteq> None
        \<and> map_option (\<lambda>res. Fqdn (c_Answer res))
              (cname_entry answers short_client (last short_chain)) \<noteq> Some (last short_chain)"
  then obtain ra where ra: "a_entry answers short_client (last short_chain) = Some ra"
    by auto
  have "short_chain \<noteq> []" "length [] + length short_chain \<le> 10"
    using h by auto
  then show "\<exists>records w'. Addresses e answers short_client short_name [] w
                          = Some (Inr (records, True), w') \<and> records \<noteq> []"
    using h ra cname_chain_resolves[of answers short_client short_chain "[]" short_name ra e w]
    by blast
qed

lemma chain_long_lookup:
  "cname_entry chain_answers ''10.0.0.10'' k
     = map_of (map2 hop (butlast chain_names) (tl chain_names)) k"
  "a_entry chain_answers ''10.0.0.10'' k = None"
  "cname_entry chain_answers DEFAULT_KEY k = None"
  "a_entry chain_answers DEFAULT_KEY k = None"
  by (simp_all add: cname_entry_def a_entry_def chain_answers_def DEFAULT_KEY_def)

lemma chain_short_lookup:
  "cname_entry chain_answers ''10.0.0.9'' k
     = map_of (map2 hop (butlast (butlast chain_names)) (tl (butlast chain_names))) k"
  "a_entry chain_answers ''10.0.0.9'' ''h9.''
     = Some \<lparr>a_Ttl = None, a_Answer = [''10.1.2.3'']\<rparr>"
  by (simp_all add: cname_entry_def a_entry_def chain_answers_def)

lemma chain_long: "cname_chain chain_answers ''10.0.0.10'' chain_names"
  by (simp add: chain_long_lookup chain_names_def hop_def Fqdn_dotted)

lemma chain_short: "cname_chain chain_answers ''10.0.0.9'' (butlast chain_names)"
  by (simp add: chain_short_lookup(1) chain_names_def hop_def Fqdn_dotted)

theorem depth_guard_witness:
  "cname_chain chain_answers ''10.0.0.10'' chain_names
   \<and> length chain_names = 11
   \<and> Fqdn ''h0'' = hd chain_names
   \<and> list_all (\<lambda>k. a_entry chain_answers ''10.0.0.10'' k = None) (butlast chain_names)
   \<and> list_all (\<lambda>k. cname_entry chain_answers DEFAULT_KEY k = None
                  \<and> a_entry chain_answers DEFAULT_KEY k = None) (butlast chain_names)
   \<and> RecurseHosts chain_answers DEFAULT_KEY = []
   \<and> (\<forall>log k. ResolveTryAll example_env log k [] = Inl UpstreamFailure)
   \<and> (\<exists>w'. Addresses example_env chain_answers ''10.0.0.10'' ''h0'' [] example_world
              = Some (Inr ([], False), w'))
   \<and> cname_chain chain_answers ''10.0.0.9'' (butlast chain_names)
   \<and> length (butlast chain_names) = 10
   \<and> Fqdn ''h0'' = hd (butlast chain_names)
   \<and> a_entry chain_answers ''10.0.0.9'' (last (butlast chain_names)) \<noteq> None
   \<and> cname_entry chain_answers ''10.0.0.9'' (last (butlast chain_names)) = None
   \<and> (\<exists>records w'. Addresses example_env chain_answers ''10.0.0.9'' ''h0'' [] example_world
                      = Some (Inr (records, True), w')
         \<and> records \<noteq> [])
   \<and> Addresses example_env chain_answers ''10.0.0.9'' ''h0''
        (replicate 10 (RR_Other \<lparr>Name = [], Rrtype = 0, Class = 0, Ttl = 0\<rparr> [])) example_world
       = Some (Inr ([], False), example_world)"
proof -
  have n: "Fqdn ''h0'' = ''h0.''"
    by (simp add: Fqdn_def IsFqdn_def)
  have l: "length chain_names = 11" "hd chain_names = ''h0.''"
    "last (butlast chain_names) = ''h9.''" "hd (butlast chain_names) = ''h0.''"
    "length (butlast chain_names) = 10"
    by (simp_all add: chain_names_def)
  have a: "list_all (\<lambda>k. a_entry chain_answers ''10.0.0.10'' k = None) (butlast chain_names)"
    "list_all (\<lambda>k. cname_entry chain_answers DEFAULT_KEY k = None
                  \<and> a_entry chain_answers DEFAULT_KEY k = None) (butlast chain_names)"
    by (simp_all add: chain_long_lookup list_all_iff)
  have u: "RecurseHosts chain_answers DEFAULT_KEY = []"
    "\<forall>log k. ResolveTryAll example_env log k [] = Inl UpstreamFailure"
    by (simp_all add: RecurseHosts_append recurseHostsFor_def chain_answers_def DEFAULT_KEY_def
        example_env_def no_upstream_def)
  have s: "a_entry chain_answers ''10.0.0.9'' (last (butlast chain_names)) \<noteq> None"
    "cname_entry chain_answers ''10.0.0.9'' (last (butlast chain_names)) = None"
    by (simp_all add: l chain_short_lookup) (simp add: chain_names_def hop_def)
  show ?thesis
    using depth_guard[where e = example_env and answers = chain_answers and w = example_world
        and clientIp = "''10.0.0.9''" and fqdn = "''h0''"
        and cnameParents = "replicate 10 (RR_Other \<lparr>Name = [], Rrtype = 0, Class = 0, Ttl = 0\<rparr> [])"
        and long_client = "''10.0.0.10''" and long_chain = chain_names and long_name = "''h0''"
        and short_client = "''10.0.0.9''" and short_chain = "butlast chain_names"
        and short_name = "''h0''"]
      chain_long chain_short n l a u s
    by simp
qed

end
